theory Spec2Isabelle
  imports
    Main
    "HOL-Library.Char_ord"
    "HOL-Library.List_Lexorder"
    "HOL-Library.Product_Lexorder"
    "HOL-Library.Sublist"
begin

section \<open>octodns-lexicon: the provider bridge of \<^verbatim>\<open>octodns_lexicon.py\<close>\<close>

text \<open>
  A shallow embedding of \<^verbatim>\<open>src/octodns_lexicon.py\<close>: the decoding functions
  \<^verbatim>\<open>_data_for_*\<close>, the encoding functions \<^verbatim>\<open>_rrset_for_*\<close>, the class
  \<^verbatim>\<open>RememberedIds\<close>, the harmonising step of \<^verbatim>\<open>populate\<close> and the loop body of
  \<^verbatim>\<open>_apply\<close>. Python strings are \<^typ>\<open>string\<close>; every character the code inspects
  (blank, quote, backslash, dot, semicolon) is ASCII. Exceptions are values of the type
  \<open>error\<close>; a function that can raise returns \<open>error + 'a\<close>.
\<close>

subsection \<open>Flat records and exceptions\<close>

text \<open>
  \<^verbatim>\<open>LexiconRecord\<close> is a \<^verbatim>\<open>namedtuple('LexiconRecord', 'content ttl rtype name')\<close>:
  a tuple, compared and ordered as one (content first).
\<close>

type_synonym LexiconRecord = "string \<times> int \<times> string \<times> string"

fun content :: "LexiconRecord \<Rightarrow> string" where
  "content (c, t, ty, n) = c"

fun ttl :: "LexiconRecord \<Rightarrow> int" where
  "ttl (c, t, ty, n) = t"

fun rtype :: "LexiconRecord \<Rightarrow> string" where
  "rtype (c, t, ty, n) = ty"

fun name :: "LexiconRecord \<Rightarrow> string" where
  "name (c, t, ty, n) = n"

text \<open>
  The exceptions the code can raise. \<^verbatim>\<open>RecordDeleteError\<close> and
  \<^verbatim>\<open>RecordCreateError\<close> subclass \<^verbatim>\<open>RecordUpdateError\<close> and inherit its constructor
  \<^verbatim>\<open>__init__(self, record, identifier=None)\<close>. \<open>ValueError\<close> is Python's built-in
  exception: it is what \<^verbatim>\<open>shlex.split\<close> raises on an unclosed quotation or a dangling
  escape, and what the tuple unpacking \<^verbatim>\<open>flags, tag, value = ...\<close> raises on a wrong
  number of tokens. The code defines no exception class of its own for malformed content.
\<close>

datatype error =
    ValueError
  | IndexError
  | AttributeError
  | RecordUpdateError LexiconRecord "string option"
  | RecordDeleteError LexiconRecord "string option"
  | RecordCreateError LexiconRecord "string option"

text \<open>
  The exception classes the module defines itself are the three at its end; everything
  else it raises is a built-in exception of Python.
\<close>

fun module_exception :: "error \<Rightarrow> bool" where
  "module_exception (RecordUpdateError r i) = True"
| "module_exception (RecordDeleteError r i) = True"
| "module_exception (RecordCreateError r i) = True"
| "module_exception _ = False"

subsection \<open>\<^verbatim>\<open>shlex.split\<close> of the Python standard library\<close>

text \<open>
  \<^verbatim>\<open>shlex.split(s)\<close> runs the lexer in POSIX mode with \<^verbatim>\<open>whitespace_split = True\<close>
  and no comment characters. The lexer's \<^verbatim>\<open>read_token\<close> is a state machine over
  \<^verbatim>\<open>self.state\<close>: \<^verbatim>\<open>' '\<close> (between tokens), \<^verbatim>\<open>'a'\<close> (inside a word), a quote
  character (inside a quotation) or the escape character (right after a backslash), with
  the local variables \<^verbatim>\<open>quoted\<close> and \<^verbatim>\<open>escapedstate\<close> that are reset for every token.
  \<open>read_tokens state escapedstate quoted token input\<close> reads all tokens of the input.
\<close>

datatype lexstate = St_space | St_word | St_quote char | St_escape

definition whitespace :: "char set" where
  "whitespace = {CHR '' '', CHR 0x09, CHR 0x0D, CHR 0x0A}"

definition quotes :: "char set" where
  "quotes = {CHR 0x27, CHR 0x22}"

definition escape :: char where
  "escape = CHR 0x5C"

definition escapedquotes :: "char set" where
  "escapedquotes = {CHR 0x22}"

fun emit :: "string \<Rightarrow> error + string list \<Rightarrow> error + string list" where
  "emit tok (Inl e) = Inl e"
| "emit tok (Inr ts) = Inr (tok # ts)"

fun read_tokens ::
  "lexstate \<Rightarrow> lexstate \<Rightarrow> bool \<Rightarrow> string \<Rightarrow> string \<Rightarrow> error + string list" where
  "read_tokens st es quoted tok [] =
     (case st of
        St_quote q \<Rightarrow> Inl ValueError
      | St_escape \<Rightarrow> Inl ValueError
      | _ \<Rightarrow> if tok \<noteq> [] \<or> quoted then Inr [tok] else Inr [])"
| "read_tokens st es quoted tok (c # cs) =
     (case st of
        St_space \<Rightarrow>
          if c \<in> whitespace then
            (if tok \<noteq> [] \<or> quoted then emit tok (read_tokens St_space St_space False [] cs)
             else read_tokens St_space es quoted tok cs)
          else if c = escape then read_tokens St_escape St_word quoted tok cs
          else if c \<in> quotes then read_tokens (St_quote c) es quoted tok cs
          else read_tokens St_word es quoted [c] cs
      | St_quote q \<Rightarrow>
          if c = q then read_tokens St_word es True tok cs
          else if c = escape \<and> q \<in> escapedquotes then
            read_tokens St_escape (St_quote q) True tok cs
          else read_tokens (St_quote q) es True (tok @ [c]) cs
      | St_escape \<Rightarrow>
          (case es of
             St_quote q \<Rightarrow>
               if c \<noteq> escape \<and> c \<noteq> q then read_tokens es es quoted (tok @ [escape, c]) cs
               else read_tokens es es quoted (tok @ [c]) cs
           | _ \<Rightarrow> read_tokens es es quoted (tok @ [c]) cs)
      | St_word \<Rightarrow>
          if c \<in> whitespace then
            (if tok \<noteq> [] \<or> quoted then emit tok (read_tokens St_space St_space False [] cs)
             else read_tokens St_space es quoted tok cs)
          else if c \<in> quotes then read_tokens (St_quote c) es quoted tok cs
          else if c = escape then read_tokens St_escape St_word quoted tok cs
          else read_tokens St_word es quoted (tok @ [c]) cs)"

definition shlex_split :: "string \<Rightarrow> error + string list" where
  "shlex_split s = read_tokens St_space St_space False [] s"

subsection \<open>Decoding: \<^verbatim>\<open>_data_for_*\<close>\<close>

text \<open>
  A record as the provider lists it: a dict with the keys \<^verbatim>\<open>content\<close>, \<^verbatim>\<open>type\<close>,
  \<^verbatim>\<open>name\<close>, \<^verbatim>\<open>ttl\<close> and \<^verbatim>\<open>id\<close>.
\<close>

record lexicon_record =
  rec_content :: string
  rec_type :: string
  rec_name :: string
  rec_ttl :: int
  rec_id :: string

text \<open>
  The dict a \<^verbatim>\<open>_data_for_*\<close> function returns: \<^verbatim>\<open>ttl\<close>, \<^verbatim>\<open>type\<close> and either
  \<^verbatim>\<open>values\<close> (a list) or \<^verbatim>\<open>value\<close> (one string). Every field of a decoded value is the
  string the tokenizer produced.
\<close>

datatype data_value =
    Plain string
  | Caa_data string string string
  | Mx_data string string
  | Srv_data string string string string

datatype payload = Values "data_value list" | Value string

record data =
  data_ttl :: int
  data_type :: string
  data_payload :: payload

text \<open>\<^verbatim>\<open>re.sub(';', '\;', s)\<close>: every semicolon gets a backslash in front.\<close>

definition escape_semicolons :: "string \<Rightarrow> string" where
  "escape_semicolons s =
     concat (map (\<lambda>c. if c = CHR '';'' then [CHR 0x5C, CHR '';''] else [c]) s)"

text \<open>\<^verbatim>\<open>lexicon_records[0]['ttl']\<close> raises \<open>IndexError\<close> on an empty list.\<close>

fun first_ttl :: "lexicon_record list \<Rightarrow> error + int" where
  "first_ttl [] = Inl IndexError"
| "first_ttl (r # rs) = Inr (rec_ttl r)"

definition data_for_multiple :: "string \<Rightarrow> lexicon_record list \<Rightarrow> error + data" where
  "data_for_multiple ty lexicon_records =
     (case first_ttl lexicon_records of
        Inl e \<Rightarrow> Inl e
      | Inr t \<Rightarrow>
          Inr \<lparr>data_ttl = t, data_type = ty,
               data_payload =
                 Values (map (\<lambda>r. Plain (escape_semicolons (rec_content r))) lexicon_records)\<rparr>)"

text \<open>The loop bodies of the three tokenizing decoders: split, then unpack.\<close>

definition caa_value :: "lexicon_record \<Rightarrow> error + data_value" where
  "caa_value r =
     (case shlex_split (rec_content r) of
        Inl e \<Rightarrow> Inl e
      | Inr [flags, tag, val] \<Rightarrow> Inr (Caa_data flags tag val)
      | Inr _ \<Rightarrow> Inl ValueError)"

definition mx_value :: "lexicon_record \<Rightarrow> error + data_value" where
  "mx_value r =
     (case shlex_split (rec_content r) of
        Inl e \<Rightarrow> Inl e
      | Inr [priority, exchange] \<Rightarrow> Inr (Mx_data priority exchange)
      | Inr _ \<Rightarrow> Inl ValueError)"

definition srv_value :: "lexicon_record \<Rightarrow> error + data_value" where
  "srv_value r =
     (case shlex_split (rec_content r) of
        Inl e \<Rightarrow> Inl e
      | Inr [priority, weight, port, target] \<Rightarrow> Inr (Srv_data priority weight port target)
      | Inr _ \<Rightarrow> Inl ValueError)"

text \<open>\<^verbatim>\<open>for record in lexicon_records: ...; values.append(...)\<close>\<close>

fun collect :: "(lexicon_record \<Rightarrow> error + data_value) \<Rightarrow> lexicon_record list \<Rightarrow>
    error + data_value list" where
  "collect f [] = Inr []"
| "collect f (r # rs) =
     (case f r of
        Inl e \<Rightarrow> Inl e
      | Inr v \<Rightarrow> (case collect f rs of Inl e \<Rightarrow> Inl e | Inr vs \<Rightarrow> Inr (v # vs)))"

definition data_for_values ::
  "(lexicon_record \<Rightarrow> error + data_value) \<Rightarrow> string \<Rightarrow> lexicon_record list \<Rightarrow> error + data" where
  "data_for_values f ty lexicon_records =
     (case collect f lexicon_records of
        Inl e \<Rightarrow> Inl e
      | Inr vs \<Rightarrow>
          (case first_ttl lexicon_records of
             Inl e \<Rightarrow> Inl e
           | Inr t \<Rightarrow> Inr \<lparr>data_ttl = t, data_type = ty, data_payload = Values vs\<rparr>))"

definition data_for_CAA :: "string \<Rightarrow> lexicon_record list \<Rightarrow> error + data" where
  "data_for_CAA = data_for_values caa_value"

definition data_for_MX :: "string \<Rightarrow> lexicon_record list \<Rightarrow> error + data" where
  "data_for_MX = data_for_values mx_value"

definition data_for_SRV :: "string \<Rightarrow> lexicon_record list \<Rightarrow> error + data" where
  "data_for_SRV = data_for_values srv_value"

definition data_for_CNAME :: "string \<Rightarrow> lexicon_record list \<Rightarrow> error + data" where
  "data_for_CNAME ty lexicon_records =
     (case lexicon_records of
        [] \<Rightarrow> Inl IndexError
      | r # rs \<Rightarrow>
          Inr \<lparr>data_ttl = rec_ttl r, data_type = ty, data_payload = Value (rec_content r)\<rparr>)"

text \<open>
  \<^verbatim>\<open>getattr(self, '_data_for_{}'.format(record_type))\<close> with the aliases at the end of
  the class; the lookup also finds the helper under the name \<^verbatim>\<open>multiple\<close>. A type
  with no decoder raises \<open>AttributeError\<close>.
\<close>

definition data_for :: "string \<Rightarrow> lexicon_record list \<Rightarrow> error + data" where
  "data_for ty lexicon_records =
     (if ty = ''CAA'' then data_for_CAA ty lexicon_records
      else if ty = ''MX'' then data_for_MX ty lexicon_records
      else if ty = ''SRV'' then data_for_SRV ty lexicon_records
      else if ty = ''CNAME'' \<or> ty = ''ALIAS'' then data_for_CNAME ty lexicon_records
      else if ty = ''A'' \<or> ty = ''AAAA'' \<or> ty = ''NS'' \<or> ty = ''TXT'' \<or> ty = ''multiple'' then
        data_for_multiple ty lexicon_records
      else Inl AttributeError)"

text \<open>The content tokenizes into exactly \<open>n\<close> shell words.\<close>

definition field_count :: "nat \<Rightarrow> string \<Rightarrow> bool" where
  "field_count n s = (case shlex_split s of Inl e \<Rightarrow> False | Inr ts \<Rightarrow> length ts = n)"

subsection \<open>Encoding: \<^verbatim>\<open>_rrset_for_*\<close>\<close>

text \<open>
  \<^verbatim>\<open>'{}'.format(n)\<close> for a Python int: the decimal numeral, with a leading minus sign
  for a negative number.
\<close>

definition digit_char :: "nat \<Rightarrow> char" where
  "digit_char d = ''0123456789'' ! d"

function str_nat :: "nat \<Rightarrow> string" where
  "str_nat n = (if n < 10 then [digit_char n] else str_nat (n div 10) @ [digit_char (n mod 10)])"
  by pat_completeness auto
termination
  by (relation "measure id") auto

declare str_nat.simps [simp del]

definition str_int :: "int \<Rightarrow> string" where
  "str_int k = (if k < 0 then CHR ''-'' # str_nat (nat (- k)) else str_nat (nat k))"

text \<open>
  The octodns record, as far as this module reads it: \<^verbatim>\<open>_type\<close>, \<^verbatim>\<open>ttl\<close>,
  \<^verbatim>\<open>fqdn\<close>, the values and \<^verbatim>\<open>repr(record)\<close> (octodns computes it; the module uses
  it as the key of its identifier memory). The record's class fixes the shape of its
  values: \<^verbatim>\<open>.values\<close> holds strings (A, AAAA, NS, TXT) or value objects with the
  attributes \<^verbatim>\<open>flags, tag, value\<close> (CAA), \<^verbatim>\<open>preference, exchange\<close> (MX),
  \<^verbatim>\<open>priority, weight, port, target\<close> (SRV); CNAME and ALIAS have \<^verbatim>\<open>.value\<close>, one
  string. Reading an attribute the shape does not have raises \<open>AttributeError\<close>.
  \<^verbatim>\<open>_rrset_for_multiple\<close> reads no attribute of a value: given value objects it
  would put the object itself where the content string belongs. octodns picks the class
  of a record from its type, so no such record reaches it; a string content cannot hold
  an object, and the model answers \<open>AttributeError\<close> there as well.
\<close>

datatype rdata =
    Strings "string list"
  | Single string
  | Caa_values "(int \<times> string \<times> string) list"
  | Mx_values "(int \<times> string) list"
  | Srv_values "(int \<times> int \<times> int \<times> string) list"

record octodns_record =
  o_type :: string
  o_ttl :: int
  o_fqdn :: string
  o_values :: rdata
  o_repr :: string

definition rrset_for_multiple :: "octodns_record \<Rightarrow> error + LexiconRecord set" where
  "rrset_for_multiple r =
     (case o_values r of
        Strings vs \<Rightarrow> Inr (set (map (\<lambda>c. (c, o_ttl r, o_type r, o_fqdn r)) vs))
      | _ \<Rightarrow> Inl AttributeError)"

definition rrset_for_CAA :: "octodns_record \<Rightarrow> error + LexiconRecord set" where
  "rrset_for_CAA r =
     (case o_values r of
        Caa_values vs \<Rightarrow>
          Inr (set (map (\<lambda>(flags, tag, val).
                 (str_int flags @ '' '' @ tag @ '' '' @ [CHR 0x22] @ val @ [CHR 0x22],
                  o_ttl r, o_type r, o_fqdn r)) vs))
      | _ \<Rightarrow> Inl AttributeError)"

definition rrset_for_CNAME :: "octodns_record \<Rightarrow> error + LexiconRecord set" where
  "rrset_for_CNAME r =
     (case o_values r of
        Single v \<Rightarrow> Inr {(v, o_ttl r, o_type r, o_fqdn r)}
      | _ \<Rightarrow> Inl AttributeError)"

definition rrset_for_MX :: "octodns_record \<Rightarrow> error + LexiconRecord set" where
  "rrset_for_MX r =
     (case o_values r of
        Mx_values vs \<Rightarrow>
          Inr (set (map (\<lambda>(preference, exchange).
                 (str_int preference @ '' '' @ exchange, o_ttl r, o_type r, o_fqdn r)) vs))
      | _ \<Rightarrow> Inl AttributeError)"

definition rrset_for_SRV :: "octodns_record \<Rightarrow> error + LexiconRecord set" where
  "rrset_for_SRV r =
     (case o_values r of
        Srv_values vs \<Rightarrow>
          Inr (set (map (\<lambda>(priority, weight, port, target).
                 (str_int priority @ '' '' @ str_int weight @ '' '' @ str_int port @ '' '' @ target,
                  o_ttl r, o_type r, o_fqdn r)) vs))
      | _ \<Rightarrow> Inl AttributeError)"

text \<open>
  \<^verbatim>\<open>getattr(self, '_rrset_for_{}'.format(_type))\<close>, with the aliases and the helper's
  own name \<^verbatim>\<open>multiple\<close>.
\<close>

definition rrset_for :: "string \<Rightarrow> octodns_record \<Rightarrow> error + LexiconRecord set" where
  "rrset_for ty r =
     (if ty = ''CAA'' then rrset_for_CAA r
      else if ty = ''MX'' then rrset_for_MX r
      else if ty = ''SRV'' then rrset_for_SRV r
      else if ty = ''CNAME'' \<or> ty = ''ALIAS'' then rrset_for_CNAME r
      else if ty = ''A'' \<or> ty = ''AAAA'' \<or> ty = ''NS'' \<or> ty = ''TXT'' \<or> ty = ''multiple'' then
        rrset_for_multiple r
      else Inl AttributeError)"

subsection \<open>Identifier memory: \<^verbatim>\<open>RememberedIds\<close>\<close>

text \<open>
  Two \<^verbatim>\<open>defaultdict\<close>s keyed by \<^verbatim>\<open>repr(record)\<close>: a missing key reads as the empty
  dict and as the empty list. The methods take the record (or \<^verbatim>\<open>None\<close>) and compute
  its key themselves. Contents and identifiers are strings. The lock has no effect on a
  sequential run.
\<close>

record RememberedIds =
  id_by_record_and_value :: "string \<Rightarrow> string \<rightharpoonup> string"
  all_ids_for_record :: "string \<Rightarrow> string list"

definition repr :: "octodns_record option \<Rightarrow> string" where
  "repr r = (case r of None \<Rightarrow> ''None'' | Some x \<Rightarrow> o_repr x)"

definition RememberedIds_init :: RememberedIds where
  "RememberedIds_init =
     \<lparr>id_by_record_and_value = (\<lambda>k. Map.empty), all_ids_for_record = (\<lambda>k. [])\<rparr>"

definition remember ::
  "RememberedIds \<Rightarrow> octodns_record option \<Rightarrow> string \<Rightarrow> string \<Rightarrow> RememberedIds" where
  "remember m r c i =
     \<lparr>id_by_record_and_value =
        (id_by_record_and_value m)(repr r := (id_by_record_and_value m (repr r))(c \<mapsto> i)),
      all_ids_for_record =
        (all_ids_for_record m)(repr r := all_ids_for_record m (repr r) @ [i])\<rparr>"

definition has_unique_ids :: "RememberedIds \<Rightarrow> octodns_record option \<Rightarrow> bool" where
  "has_unique_ids m r =
     (length (all_ids_for_record m (repr r)) = card (set (all_ids_for_record m (repr r))))"

definition get :: "RememberedIds \<Rightarrow> octodns_record option \<Rightarrow> string \<Rightarrow> string option" where
  "get m r c = id_by_record_and_value m (repr r) c"

definition get_all_ids :: "RememberedIds \<Rightarrow> octodns_record option \<Rightarrow> string list" where
  "get_all_ids m r = all_ids_for_record m (repr r)"

text \<open>
  The loop of \<^verbatim>\<open>populate\<close> that remembers every listed record of one group under the
  group's record.
\<close>

fun remember_all ::
  "RememberedIds \<Rightarrow> octodns_record option \<Rightarrow> lexicon_record list \<Rightarrow> RememberedIds" where
  "remember_all m r [] = m"
| "remember_all m r (l # ls) = remember_all (remember m r (rec_content l) (rec_id l)) r ls"

subsection \<open>Harmonising listed records in \<^verbatim>\<open>populate\<close>\<close>

text \<open>
  The body of the first loop of \<^verbatim>\<open>populate\<close> for one listed record.
  \<^verbatim>\<open>content[-1]\<close> raises \<open>IndexError\<close> on the empty string, and so does
  \<^verbatim>\<open>shlex.split(content)[-1]\<close> when the content has no token.
\<close>

definition harmonize :: "string \<Rightarrow> lexicon_record \<Rightarrow> error + lexicon_record" where
  "harmonize zone_name r =
     (if rec_type r \<in> {''CNAME'', ''MX'', ''NS''} then
        (if rec_content r = [] then Inl IndexError
         else if last (rec_content r) \<noteq> CHR ''.'' then
           (case shlex_split (rec_content r) of
              Inl e \<Rightarrow> Inl e
            | Inr [] \<Rightarrow> Inl IndexError
            | Inr (t # ts) \<Rightarrow>
                (let domain_part = last (t # ts) in
                 if CHR ''.'' \<in> set domain_part then
                   Inr (r\<lparr>rec_content := rec_content r @ ''.''\<rparr>)
                 else Inr (r\<lparr>rec_content := rec_content r @ ''.'' @ zone_name\<rparr>)))
         else Inr r)
      else Inr r)"

subsection \<open>Applying a change: the loop body of \<^verbatim>\<open>_apply\<close>\<close>

text \<open>
  The three mutating calls on \<^verbatim>\<open>lexicon_client.provider\<close>, with the keyword arguments
  \<^verbatim>\<open>func_args()\<close> gives (content, rtype, name). The identifier of a delete is
  \<open>None\<close> when the call passes none or passes \<^verbatim>\<open>None\<close>.
\<close>

datatype call =
    Create_record string string string
  | Update_record string string string string
  | Delete_record "string option" string string string

text \<open>
  The provider is outside the module. Its answer to a call (truthy or falsy) may depend on
  the TTL the module has put into the dynamic configuration with \<^verbatim>\<open>set_ttl\<close> and on
  all the calls made before; the calls made so far are the state \<^verbatim>\<open>_apply\<close> threads.
  The result of a run is the calls made and the exception raised, if any.
\<close>

type_synonym provider = "int \<Rightarrow> call list \<Rightarrow> call \<Rightarrow> bool"

type_synonym outcome = "call list \<times> error option"

definition provider_call :: "provider \<Rightarrow> int \<Rightarrow> call \<Rightarrow> error \<Rightarrow> call list \<Rightarrow> outcome" where
  "provider_call prov t c e tr = (tr @ [c], if prov t tr c then None else Some e)"

definition and_then :: "outcome \<Rightarrow> (call list \<Rightarrow> outcome) \<Rightarrow> outcome" where
  "and_then r f = (case r of (tr, None) \<Rightarrow> f tr | (tr, Some e) \<Rightarrow> (tr, Some e))"

definition create_then_delete ::
  "provider \<Rightarrow> int \<Rightarrow> LexiconRecord \<Rightarrow> LexiconRecord \<Rightarrow> call list \<Rightarrow> outcome" where
  "create_then_delete prov t new_record old_record tr =
     and_then
       (provider_call prov t
          (Create_record (content new_record) (rtype new_record) (name new_record))
          (RecordCreateError new_record None) tr)
       (provider_call prov t
          (Delete_record None (content old_record) (rtype old_record) (name old_record))
          (RecordDeleteError old_record None))"

text \<open>
  The body of the pairing loop. \<^verbatim>\<open>if identifier and ...\<close> tests the identifier's
  truth value: \<^verbatim>\<open>None\<close> and the empty string are falsy.
\<close>

definition update_or_replace ::
  "provider \<Rightarrow> int \<Rightarrow> RememberedIds \<Rightarrow> octodns_record option \<Rightarrow>
     LexiconRecord \<Rightarrow> LexiconRecord \<Rightarrow> call list \<Rightarrow> outcome" where
  "update_or_replace prov t m existing new_record old_record tr =
     (case get m existing (content old_record) of
        Some identifier \<Rightarrow>
          if identifier \<noteq> [] \<and> has_unique_ids m existing then
            provider_call prov t
              (Update_record identifier (content new_record) (rtype new_record) (name new_record))
              (RecordUpdateError new_record (Some identifier)) tr
          else create_then_delete prov t new_record old_record tr
      | None \<Rightarrow> create_then_delete prov t new_record old_record tr)"

fun pair_loop ::
  "provider \<Rightarrow> int \<Rightarrow> RememberedIds \<Rightarrow> octodns_record option \<Rightarrow>
     (LexiconRecord \<times> LexiconRecord) list \<Rightarrow> call list \<Rightarrow> outcome" where
  "pair_loop prov t m existing [] tr = (tr, None)"
| "pair_loop prov t m existing ((new_record, old_record) # ps) tr =
     and_then (update_or_replace prov t m existing new_record old_record tr)
       (pair_loop prov t m existing ps)"

fun create_loop :: "provider \<Rightarrow> int \<Rightarrow> LexiconRecord list \<Rightarrow> call list \<Rightarrow> outcome" where
  "create_loop prov t [] tr = (tr, None)"
| "create_loop prov t (new_record # rs) tr =
     and_then
       (provider_call prov t
          (Create_record (content new_record) (rtype new_record) (name new_record))
          (RecordCreateError new_record None) tr)
       (create_loop prov t rs)"

fun delete_loop ::
  "provider \<Rightarrow> int \<Rightarrow> RememberedIds \<Rightarrow> octodns_record option \<Rightarrow>
     LexiconRecord list \<Rightarrow> call list \<Rightarrow> outcome" where
  "delete_loop prov t m existing [] tr = (tr, None)"
| "delete_loop prov t m existing (old_record # rs) tr =
     and_then
       (provider_call prov t
          (Delete_record (get m existing (content old_record))
             (content old_record) (rtype old_record) (name old_record))
          (RecordDeleteError old_record None) tr)
       (delete_loop prov t m existing rs)"

text \<open>
  The three loops over the sorted additions and deletions; the iterators of the pairing
  loop are left at position \<open>min(len(additions), len(deletions))\<close>.
\<close>

definition reconcile ::
  "provider \<Rightarrow> int \<Rightarrow> RememberedIds \<Rightarrow> octodns_record option \<Rightarrow>
     LexiconRecord set \<Rightarrow> LexiconRecord set \<Rightarrow> call list \<Rightarrow> outcome" where
  "reconcile prov t m existing old_vars new_vars tr =
     (let additions = new_vars - old_vars;
          deletions = old_vars - new_vars;
          additions_iter = sorted_list_of_set additions;
          deletions_iter = sorted_list_of_set deletions;
          n = min (card additions) (card deletions)
      in and_then
           (and_then
              (pair_loop prov t m existing (zip (take n additions_iter) (take n deletions_iter)) tr)
              (create_loop prov t (drop n additions_iter)))
           (delete_loop prov t m existing (drop n deletions_iter)))"

text \<open>
  A change of the plan: \<^verbatim>\<open>change.existing\<close>, \<^verbatim>\<open>change.new\<close> (either may be
  \<^verbatim>\<open>None\<close>) and \<^verbatim>\<open>change.record\<close>, which octodns defines as
  \<^verbatim>\<open>self.new or self.existing\<close>.
\<close>

record change =
  ch_existing :: "octodns_record option"
  ch_new :: "octodns_record option"

definition change_record :: "change \<Rightarrow> octodns_record option" where
  "change_record ch = (case ch_new ch of Some r \<Rightarrow> Some r | None \<Rightarrow> ch_existing ch)"

definition rrset_or_empty ::
  "string \<Rightarrow> octodns_record option \<Rightarrow> error + LexiconRecord set" where
  "rrset_or_empty ty r = (case r of None \<Rightarrow> Inr {} | Some x \<Rightarrow> rrset_for ty x)"

definition apply_change :: "provider \<Rightarrow> RememberedIds \<Rightarrow> change \<Rightarrow> call list \<Rightarrow> outcome" where
  "apply_change prov m ch tr =
     (case change_record ch of
        None \<Rightarrow> (tr, Some AttributeError)
      | Some r \<Rightarrow>
          (case rrset_or_empty (o_type r) (ch_existing ch) of
             Inl e \<Rightarrow> (tr, Some e)
           | Inr old_vars \<Rightarrow>
               (case rrset_or_empty (o_type r) (ch_new ch) of
                  Inl e \<Rightarrow> (tr, Some e)
                | Inr new_vars \<Rightarrow>
                    reconcile prov (o_ttl r) m (ch_existing ch) old_vars new_vars tr)))"

text \<open>\<^verbatim>\<open>for change in changes\<close>: an exception ends the whole \<^verbatim>\<open>_apply\<close>.\<close>

fun apply_changes :: "provider \<Rightarrow> RememberedIds \<Rightarrow> change list \<Rightarrow> call list \<Rightarrow> outcome" where
  "apply_changes prov m [] tr = (tr, None)"
| "apply_changes prov m (ch # chs) tr =
     and_then (apply_change prov m ch tr) (apply_changes prov m chs)"

subsection \<open>Notions of the specification\<close>

text \<open>
  The operation list of the reconciliation engine as the specification describes it: each
  operation is a provider call together with the error raised when the call fails.
\<close>

type_synonym step = "call \<times> error"

definition create_step :: "LexiconRecord \<Rightarrow> step" where
  "create_step r = (Create_record (content r) (rtype r) (name r), RecordCreateError r None)"

definition update_step :: "string \<Rightarrow> LexiconRecord \<Rightarrow> step" where
  "update_step i r = (Update_record i (content r) (rtype r) (name r), RecordUpdateError r (Some i))"

definition delete_step :: "string option \<Rightarrow> LexiconRecord \<Rightarrow> step" where
  "delete_step i r = (Delete_record i (content r) (rtype r) (name r), RecordDeleteError r None)"

definition pair_steps ::
  "RememberedIds \<Rightarrow> octodns_record option \<Rightarrow> LexiconRecord \<times> LexiconRecord \<Rightarrow> step list" where
  "pair_steps m existing p =
     (case get m existing (content (snd p)) of
        Some i \<Rightarrow>
          if i \<noteq> [] \<and> has_unique_ids m existing then [update_step i (fst p)]
          else [create_step (fst p), delete_step None (snd p)]
      | None \<Rightarrow> [create_step (fst p), delete_step None (snd p)])"

definition planned ::
  "RememberedIds \<Rightarrow> octodns_record option \<Rightarrow> LexiconRecord set \<Rightarrow> LexiconRecord set \<Rightarrow>
     step list" where
  "planned m existing old_flat new_flat =
     (let adds = sorted_list_of_set (new_flat - old_flat);
          dels = sorted_list_of_set (old_flat - new_flat);
          n = min (length adds) (length dels)
      in concat (map (pair_steps m existing) (zip adds dels))
         @ map create_step (drop n adds)
         @ map (\<lambda>r. delete_step (get m existing (content r)) r) (drop n dels))"

text \<open>
  Executing an operation list in order: a failing call raises its error and ends the
  run; nothing is called after it.
\<close>

fun run :: "provider \<Rightarrow> int \<Rightarrow> step list \<Rightarrow> call list \<Rightarrow> outcome" where
  "run prov t [] tr = (tr, None)"
| "run prov t ((c, e) # ss) tr =
     (if prov t tr c then run prov t ss (tr @ [c]) else (tr @ [c], Some e))"

text \<open>
  A flat record as the provider lists it back under the identifier \<open>i\<close>: the dict of
  \<^verbatim>\<open>to_list_format\<close> with the key \<^verbatim>\<open>id\<close> the listing adds.
\<close>

definition listed_as :: "LexiconRecord \<Rightarrow> string \<Rightarrow> lexicon_record" where
  "listed_as f i =
     \<lparr>rec_content = content f, rec_type = rtype f, rec_name = name f, rec_ttl = ttl f,
      rec_id = i\<rparr>"

text \<open>
  The dict form of a record's values, which octodns's \<^verbatim>\<open>Record.new\<close> reads back into
  value objects: numbers appear as their decimal strings.
\<close>

fun value_data :: "rdata \<Rightarrow> payload" where
  "value_data (Strings vs) = Values (map Plain vs)"
| "value_data (Single v) = Value v"
| "value_data (Caa_values vs) =
     Values (map (\<lambda>(flags, tag, val). Caa_data (str_int flags) tag val) vs)"
| "value_data (Mx_values vs) =
     Values (map (\<lambda>(preference, exchange). Mx_data (str_int preference) exchange) vs)"
| "value_data (Srv_values vs) =
     Values (map (\<lambda>(priority, weight, port, target).
       Srv_data (str_int priority) (str_int weight) (str_int port) target) vs)"

text \<open>
  A string that is one shell word as it stands: not empty, and free of blanks, quotes and
  backslashes. A string that can stand between double quotes: free of double quotes and
  backslashes.
\<close>

definition plain_word :: "string \<Rightarrow> bool" where
  "plain_word s = (s \<noteq> [] \<and> list_all (\<lambda>c. c \<notin> whitespace \<and> c \<notin> quotes \<and> c \<noteq> escape) s)"

definition quotable :: "string \<Rightarrow> bool" where
  "quotable s = list_all (\<lambda>c. c \<noteq> CHR 0x22 \<and> c \<noteq> escape) s"

text \<open>The single values for which the round trip through the flat content is exact.\<close>

fun roundtrip_safe :: "string \<Rightarrow> rdata \<Rightarrow> bool" where
  "roundtrip_safe ty (Strings [v]) =
     (ty \<in> {''A'', ''AAAA'', ''NS'', ''TXT''} \<and> CHR '';'' \<notin> set v)"
| "roundtrip_safe ty (Single v) = (ty \<in> {''CNAME'', ''ALIAS''})"
| "roundtrip_safe ty (Caa_values [(flags, tag, val)]) =
     (ty = ''CAA'' \<and> plain_word tag \<and> quotable val)"
| "roundtrip_safe ty (Mx_values [(preference, exchange)]) = (ty = ''MX'' \<and> plain_word exchange)"
| "roundtrip_safe ty (Srv_values [(priority, weight, port, target)]) =
     (ty = ''SRV'' \<and> plain_word target)"
| "roundtrip_safe ty _ = False"

text \<open>A store after a sequence of \<^verbatim>\<open>remember\<close> calls, for any records.\<close>

fun remember_each ::
  "RememberedIds \<Rightarrow> (octodns_record option \<times> string \<times> string) list \<Rightarrow> RememberedIds" where
  "remember_each m [] = m"
| "remember_each m ((r, c, i) # ts) = remember_each (remember m r c i) ts"

text \<open>
  The exception that belongs to a failed provider call: its class names the call, it
  carries a flat record with the call's content, type and name, and the identifier only
  for an update.
\<close>

fun raised_for :: "call \<Rightarrow> error \<Rightarrow> bool" where
  "raised_for (Create_record c ty n) (RecordCreateError r i) =
     (content r = c \<and> rtype r = ty \<and> name r = n \<and> i = None)"
| "raised_for (Update_record j c ty n) (RecordUpdateError r i) =
     (content r = c \<and> rtype r = ty \<and> name r = n \<and> i = Some j)"
| "raised_for (Delete_record j c ty n) (RecordDeleteError r i) =
     (content r = c \<and> rtype r = ty \<and> name r = n \<and> i = None)"
| "raised_for _ _ = False"

subsection \<open>Example records and providers\<close>

definition www_old :: octodns_record where
  "www_old = \<lparr>o_type = ''A'', o_ttl = 300, o_fqdn = ''www.example.com.'',
     o_values = Strings [''192.0.2.1''], o_repr = ''<ARecord A 300, www.example.com., 1>''\<rparr>"

definition www_new :: octodns_record where
  "www_new = \<lparr>o_type = ''A'', o_ttl = 300, o_fqdn = ''www.example.com.'',
     o_values = Strings [''192.0.2.2''], o_repr = ''<ARecord A 300, www.example.com., 2>''\<rparr>"

definition www_two :: octodns_record where
  "www_two = \<lparr>o_type = ''A'', o_ttl = 300, o_fqdn = ''www.example.com.'',
     o_values = Strings [''192.0.2.1'', ''192.0.2.3''],
     o_repr = ''<ARecord A 300, www.example.com., 1 3>''\<rparr>"

definition flat_1 :: LexiconRecord where
  "flat_1 = (''192.0.2.1'', 300, ''A'', ''www.example.com.'')"

definition flat_2 :: LexiconRecord where
  "flat_2 = (''192.0.2.2'', 300, ''A'', ''www.example.com.'')"

definition flat_3 :: LexiconRecord where
  "flat_3 = (''192.0.2.3'', 300, ''A'', ''www.example.com.'')"

definition always_ok :: provider where
  "always_ok t tr c = True"

definition delete_fails :: provider where
  "delete_fails t tr c = (case c of Delete_record i a b d \<Rightarrow> False | _ \<Rightarrow> True)"

definition dkim :: octodns_record where
  "dkim = \<lparr>o_type = ''TXT'', o_ttl = 300, o_fqdn = ''k1._domainkey.example.com.'',
     o_values = Strings [''v=DKIM1'' @ [CHR 0x5C] @ ''; k=rsa''],
     o_repr = ''<TxtRecord TXT 300, k1._domainkey.example.com.>''\<rparr>"

definition dkim_flat :: LexiconRecord where
  "dkim_flat =
     (''v=DKIM1'' @ [CHR 0x5C] @ ''; k=rsa'', 300, ''TXT'', ''k1._domainkey.example.com.'')"

definition caa_rec :: octodns_record where
  "caa_rec = \<lparr>o_type = ''CAA'', o_ttl = 3600, o_fqdn = ''example.com.'',
     o_values = Caa_values [(0, ''issue'', ''letsencrypt.org'')],
     o_repr = ''<CaaRecord CAA 3600, example.com.>''\<rparr>"

definition caa_flat :: LexiconRecord where
  "caa_flat =
     (''0 issue '' @ [CHR 0x22] @ ''letsencrypt.org'' @ [CHR 0x22], 3600, ''CAA'',
      ''example.com.'')"

section \<open>Properties\<close>

subsection \<open>Decoding and the number of fields\<close>

lemma read_tokens_error: "read_tokens st es q tok s = Inl e \<Longrightarrow> e = ValueError"
proof (induction s arbitrary: st es q tok)
  case Nil
  then show ?case by (auto split: lexstate.splits if_splits)
next
  case (Cons c cs)
  have emitE: "\<And>t r. emit t r = Inl e \<Longrightarrow> r = Inl e"
    by (case_tac r) auto
  from Cons.prems show ?case
    by (auto split: lexstate.splits if_splits dest!: emitE Cons.IH)
qed

lemma shlex_split_error: "shlex_split s = Inl e \<Longrightarrow> e = ValueError"
  unfolding shlex_split_def by (rule read_tokens_error)

lemma collect_Inr:
  "(\<exists>vs. collect f rs = Inr vs) \<longleftrightarrow> (\<forall>r\<in>set rs. \<exists>v. f r = Inr v)"
  by (induction rs) (auto split: sum.splits)

lemma collect_Inl:
  "collect f rs = Inl e \<Longrightarrow> \<exists>r\<in>set rs. f r = Inl e"
  by (induction rs) (auto split: sum.splits)

lemma caa_value_Inr: "(\<exists>v. caa_value r = Inr v) \<longleftrightarrow> field_count 3 (rec_content r)"
  by (auto simp: caa_value_def field_count_def length_Suc_conv numeral_3_eq_3 split: sum.splits list.splits)

lemma caa_value_Inl: "caa_value r = Inl e \<Longrightarrow> e = ValueError"
  by (auto simp: caa_value_def split: sum.splits list.splits dest: shlex_split_error)

lemma mx_value_Inr: "(\<exists>v. mx_value r = Inr v) \<longleftrightarrow> field_count 2 (rec_content r)"
  by (auto simp: mx_value_def field_count_def length_Suc_conv numeral_2_eq_2 split: sum.splits list.splits)

lemma mx_value_Inl: "mx_value r = Inl e \<Longrightarrow> e = ValueError"
  by (auto simp: mx_value_def split: sum.splits list.splits dest: shlex_split_error)

lemma srv_value_Inr: "(\<exists>v. srv_value r = Inr v) \<longleftrightarrow> field_count 4 (rec_content r)"
  by (auto simp: srv_value_def field_count_def length_Suc_conv eval_nat_numeral split: sum.splits list.splits)

lemma srv_value_Inl: "srv_value r = Inl e \<Longrightarrow> e = ValueError"
  by (auto simp: srv_value_def split: sum.splits list.splits dest: shlex_split_error)

lemma data_for_values_cases:
  assumes "recs \<noteq> []"
    and ok: "\<And>r. (\<exists>v. f r = Inr v) \<longleftrightarrow> P r"
    and err: "\<And>r e. f r = Inl e \<Longrightarrow> e = ValueError"
  shows "(data_for_values f ty recs = Inl ValueError \<longleftrightarrow> (\<exists>r\<in>set recs. \<not> P r)) \<and>
         ((\<exists>d. data_for_values f ty recs = Inr d) \<longleftrightarrow> (\<forall>r\<in>set recs. P r))"
proof (cases "collect f recs")
  case (Inl e)
  then obtain r where r: "r \<in> set recs" "f r = Inl e" using collect_Inl by blast
  then have "e = ValueError" using err by blast
  moreover have "\<not> P r" using r ok[of r] by auto
  ultimately show ?thesis using Inl r by (auto simp: data_for_values_def)
next
  case (Inr vs)
  then have all: "\<forall>r\<in>set recs. P r" using collect_Inr[of f recs] ok by auto
  obtain x xs where "recs = x # xs" using assms(1) by (cases recs) auto
  then show ?thesis using Inr all by (auto simp: data_for_values_def)
qed

text \<open>
  Claim C1, as the code has it. For CAA, MX and SRV, decoding a non-empty group of listed records raises
  \<open>ValueError\<close> (the built-in exception of the tuple unpacking and of
  \<^verbatim>\<open>shlex.split\<close>; the module has no exception class of its own for it) exactly when
  some content does not split into 3, 2 and 4 shell words respectively, and returns the
  decoded dict, raising nothing, exactly when every content does.
\<close>

theorem decode_field_count:
  assumes "recs \<noteq> []"
  shows "(data_for ''CAA'' recs = Inl ValueError \<longleftrightarrow> (\<exists>r\<in>set recs. \<not> field_count 3 (rec_content r))) \<and>
         ((\<exists>d. data_for ''CAA'' recs = Inr d) \<longleftrightarrow> (\<forall>r\<in>set recs. field_count 3 (rec_content r))) \<and>
         (data_for ''MX'' recs = Inl ValueError \<longleftrightarrow> (\<exists>r\<in>set recs. \<not> field_count 2 (rec_content r))) \<and>
         ((\<exists>d. data_for ''MX'' recs = Inr d) \<longleftrightarrow> (\<forall>r\<in>set recs. field_count 2 (rec_content r))) \<and>
         (data_for ''SRV'' recs = Inl ValueError \<longleftrightarrow> (\<exists>r\<in>set recs. \<not> field_count 4 (rec_content r))) \<and>
         ((\<exists>d. data_for ''SRV'' recs = Inr d) \<longleftrightarrow> (\<forall>r\<in>set recs. field_count 4 (rec_content r)))"
proof -
  have caa: "data_for ''CAA'' recs = data_for_values caa_value ''CAA'' recs"
    by (simp add: data_for_def data_for_CAA_def)
  have mx: "data_for ''MX'' recs = data_for_values mx_value ''MX'' recs"
    by (simp add: data_for_def data_for_MX_def)
  have srv: "data_for ''SRV'' recs = data_for_values srv_value ''SRV'' recs"
    by (simp add: data_for_def data_for_SRV_def)
  have c: "(data_for_values caa_value ''CAA'' recs = Inl ValueError \<longleftrightarrow>
              (\<exists>r\<in>set recs. \<not> field_count 3 (rec_content r))) \<and>
           ((\<exists>d. data_for_values caa_value ''CAA'' recs = Inr d) \<longleftrightarrow>
              (\<forall>r\<in>set recs. field_count 3 (rec_content r)))"
    by (rule data_for_values_cases[OF assms]) (rule caa_value_Inr, erule caa_value_Inl)
  have m: "(data_for_values mx_value ''MX'' recs = Inl ValueError \<longleftrightarrow>
              (\<exists>r\<in>set recs. \<not> field_count 2 (rec_content r))) \<and>
           ((\<exists>d. data_for_values mx_value ''MX'' recs = Inr d) \<longleftrightarrow>
              (\<forall>r\<in>set recs. field_count 2 (rec_content r)))"
    by (rule data_for_values_cases[OF assms]) (rule mx_value_Inr, erule mx_value_Inl)
  have s: "(data_for_values srv_value ''SRV'' recs = Inl ValueError \<longleftrightarrow>
              (\<exists>r\<in>set recs. \<not> field_count 4 (rec_content r))) \<and>
           ((\<exists>d. data_for_values srv_value ''SRV'' recs = Inr d) \<longleftrightarrow>
              (\<forall>r\<in>set recs. field_count 4 (rec_content r)))"
    by (rule data_for_values_cases[OF assms]) (rule srv_value_Inr, erule srv_value_Inl)
  show ?thesis
    unfolding caa mx srv using c m s by blast
qed

lemma field_count_caa_example:
  "field_count 3 (''2 issue '' @ [CHR 0x22] @ ''letsencrypt.org'' @ [CHR 0x22])"
  by (simp add: field_count_def shlex_split_def whitespace_def quotes_def escape_def
      escapedquotes_def)

lemma field_count_caa_short: "\<not> field_count 3 ''2 issue''"
  by (simp add: field_count_def shlex_split_def whitespace_def quotes_def escape_def
      escapedquotes_def)

theorem decode_field_count_witness:
  "data_for ''CAA''
     [\<lparr>rec_content = ''2 issue'', rec_type = ''CAA'', rec_name = ''example.com'',
       rec_ttl = 300, rec_id = ''17''\<rparr>] = Inl ValueError \<and>
   (\<exists>d. data_for ''CAA''
     [\<lparr>rec_content = ''2 issue '' @ [CHR 0x22] @ ''letsencrypt.org'' @ [CHR 0x22],
       rec_type = ''CAA'', rec_name = ''example.com'', rec_ttl = 300, rec_id = ''17''\<rparr>]
     = Inr d)"
proof -
  let ?bad = "\<lparr>rec_content = ''2 issue'', rec_type = ''CAA'', rec_name = ''example.com'',
       rec_ttl = 300, rec_id = ''17''\<rparr>"
  let ?good = "\<lparr>rec_content = ''2 issue '' @ [CHR 0x22] @ ''letsencrypt.org'' @ [CHR 0x22],
       rec_type = ''CAA'', rec_name = ''example.com'', rec_ttl = 300, rec_id = ''17''\<rparr>"
  have ne: "[?bad] \<noteq> []" "[?good] \<noteq> []" by simp_all
  have bad: "\<exists>r\<in>set [?bad]. \<not> field_count 3 (rec_content r)"
    using field_count_caa_short by simp
  have good: "\<forall>r\<in>set [?good]. field_count 3 (rec_content r)"
    using field_count_caa_example by simp
  show ?thesis
    using decode_field_count[OF ne(1)] decode_field_count[OF ne(2)] bad good by blast
qed

text \<open>
  Claim C1 as stated fails in the class of the exception: a CAA content of two words
  makes the decoder raise the built-in \<open>ValueError\<close>, which is none of the exception
  classes the module defines; there is no \<^verbatim>\<open>MalformedValueError\<close> in it.
\<close>

theorem decode_field_count_counterexample:
  "data_for ''CAA''
     [\<lparr>rec_content = ''2 issue'', rec_type = ''CAA'', rec_name = ''example.com'',
       rec_ttl = 300, rec_id = ''17''\<rparr>] = Inl ValueError \<and>
   \<not> module_exception ValueError"
  by code_simp

subsection \<open>Identifier memory\<close>

lemma get_remember:
  "get (remember m r c i) r' c' = (if repr r' = repr r \<and> c' = c then Some i else get m r' c')"
  by (simp add: get_def remember_def)

lemma get_all_ids_remember:
  "get_all_ids (remember m r c i) r' =
     get_all_ids m r' @ (if repr r' = repr r then [i] else [])"
  by (simp add: get_all_ids_def remember_def)

lemma has_unique_ids_distinct: "has_unique_ids m r \<longleftrightarrow> distinct (get_all_ids m r)"
  unfolding has_unique_ids_def get_all_ids_def
  by (metis card_distinct distinct_card)

text \<open>
  Claim C2, as the code has it. A second \<^verbatim>\<open>remember\<close> of the same triple leaves every
  \<^verbatim>\<open>get\<close> as it was, but appends the identifier to the record's list of all
  identifiers once more: \<^verbatim>\<open>get_all_ids\<close> of that record grows by one entry and
  \<^verbatim>\<open>has_unique_ids\<close> of that record is false afterwards.
\<close>

theorem remember_twice:
  "get (remember (remember m r c i) r c i) r' c' = get (remember m r c i) r' c' \<and>
   get_all_ids (remember (remember m r c i) r c i) r' =
     get_all_ids (remember m r c i) r' @ (if repr r' = repr r then [i] else []) \<and>
   \<not> has_unique_ids (remember (remember m r c i) r c i) r"
  by (simp add: get_remember get_all_ids_remember has_unique_ids_distinct)

text \<open>
  Claim C2 as stated fails: on the empty store, one \<^verbatim>\<open>remember\<close> leaves
  \<^verbatim>\<open>has_unique_ids\<close> true and the same call made twice makes it false.
\<close>

theorem remember_twice_counterexample:
  "has_unique_ids (remember RememberedIds_init
      (Some \<lparr>o_type = ''A'', o_ttl = 300, o_fqdn = ''www.example.com.'',
          o_values = Strings [''192.0.2.1''], o_repr = ''www A''\<rparr>) ''192.0.2.1'' ''17'')
      (Some \<lparr>o_type = ''A'', o_ttl = 300, o_fqdn = ''www.example.com.'',
          o_values = Strings [''192.0.2.1''], o_repr = ''www A''\<rparr>) \<and>
   \<not> has_unique_ids (remember (remember RememberedIds_init
      (Some \<lparr>o_type = ''A'', o_ttl = 300, o_fqdn = ''www.example.com.'',
          o_values = Strings [''192.0.2.1''], o_repr = ''www A''\<rparr>) ''192.0.2.1'' ''17'')
      (Some \<lparr>o_type = ''A'', o_ttl = 300, o_fqdn = ''www.example.com.'',
          o_values = Strings [''192.0.2.1''], o_repr = ''www A''\<rparr>) ''192.0.2.1'' ''17'')
      (Some \<lparr>o_type = ''A'', o_ttl = 300, o_fqdn = ''www.example.com.'',
          o_values = Strings [''192.0.2.1''], o_repr = ''www A''\<rparr>)"
  by (simp add: has_unique_ids_def remember_def RememberedIds_init_def repr_def)

lemma get_all_ids_remember_each:
  "repr r \<notin> repr ` fst ` set ts \<Longrightarrow> get_all_ids (remember_each m ts) r = get_all_ids m r"
  by (induction m ts rule: remember_each.induct) (auto simp: get_all_ids_remember)

lemma get_remember_each:
  "repr r \<notin> repr ` fst ` set ts \<Longrightarrow> get (remember_each m ts) r c = get m r c"
  by (induction m ts rule: remember_each.induct) (auto simp: get_remember)

text \<open>
  Claim C10. For a record under whose key nothing has been remembered since the store
  was created, the list of all identifiers is empty and \<^verbatim>\<open>has_unique_ids\<close> is true;
  \<^verbatim>\<open>get\<close> finds no identifier there, so whether an update is tried is decided by
  \<^verbatim>\<open>get\<close> alone.
\<close>

theorem has_unique_ids_never_remembered:
  assumes "repr r \<notin> repr ` fst ` set ts"
  shows "get_all_ids (remember_each RememberedIds_init ts) r = [] \<and>
         has_unique_ids (remember_each RememberedIds_init ts) r \<and>
         get (remember_each RememberedIds_init ts) r c = None"
proof -
  have "get_all_ids (remember_each RememberedIds_init ts) r = []"
    using get_all_ids_remember_each[OF assms, of RememberedIds_init]
    by (simp add: get_all_ids_def RememberedIds_init_def)
  moreover have "get (remember_each RememberedIds_init ts) r c = None"
    using get_remember_each[OF assms, of RememberedIds_init c]
    by (simp add: get_def RememberedIds_init_def)
  ultimately show ?thesis by (simp add: has_unique_ids_distinct)
qed

theorem has_unique_ids_never_remembered_witness:
  "has_unique_ids (remember_each RememberedIds_init
      [(Some \<lparr>o_type = ''A'', o_ttl = 300, o_fqdn = ''www.example.com.'',
          o_values = Strings [''192.0.2.1''], o_repr = ''www A''\<rparr>, ''192.0.2.1'', ''17''),
       (Some \<lparr>o_type = ''A'', o_ttl = 300, o_fqdn = ''www.example.com.'',
          o_values = Strings [''192.0.2.1''], o_repr = ''www A''\<rparr>, ''192.0.2.2'', ''17'')])
      (Some \<lparr>o_type = ''TXT'', o_ttl = 300, o_fqdn = ''www.example.com.'',
          o_values = Strings [''hello''], o_repr = ''www TXT''\<rparr>)"
proof -
  let ?a = "Some \<lparr>o_type = ''A'', o_ttl = 300, o_fqdn = ''www.example.com.'',
          o_values = Strings [''192.0.2.1''], o_repr = ''www A''\<rparr>"
  let ?t = "Some \<lparr>o_type = ''TXT'', o_ttl = 300, o_fqdn = ''www.example.com.'',
          o_values = Strings [''hello''], o_repr = ''www TXT''\<rparr>"
  have "repr ?t \<notin> repr ` fst ` set [(?a, ''192.0.2.1'', ''17''), (?a, ''192.0.2.2'', ''17'')]"
    by (simp add: repr_def)
  from has_unique_ids_never_remembered[OF this] show ?thesis by blast
qed

subsection \<open>Harmonising\<close>

text \<open>
  Claim C6. For a listed record of type CNAME, MX or NS with a non-empty content: a
  content ending in a dot is left as it is; otherwise the last shell word of the content
  is looked at, and the content gets a dot appended when that word contains a dot, and a
  dot followed by the zone's name (which octodns writes with its final dot) when it does
  not.
\<close>

theorem harmonize_cases:
  assumes "rec_type r \<in> {''CNAME'', ''MX'', ''NS''}" and "rec_content r \<noteq> []"
  shows "(last (rec_content r) = CHR ''.'' \<longrightarrow> harmonize zone_name r = Inr r) \<and>
         (last (rec_content r) \<noteq> CHR ''.'' \<and> shlex_split (rec_content r) = Inr ts \<and> ts \<noteq> [] \<and>
            CHR ''.'' \<in> set (last ts) \<longrightarrow>
            harmonize zone_name r = Inr (r\<lparr>rec_content := rec_content r @ ''.''\<rparr>)) \<and>
         (last (rec_content r) \<noteq> CHR ''.'' \<and> shlex_split (rec_content r) = Inr ts \<and> ts \<noteq> [] \<and>
            CHR ''.'' \<notin> set (last ts) \<longrightarrow>
            harmonize zone_name r = Inr (r\<lparr>rec_content := rec_content r @ ''.'' @ zone_name\<rparr>))"
  using assms by (cases ts) (auto simp: harmonize_def Let_def)

lemma shlex_split_foo: "shlex_split ''foo'' = Inr [''foo'']"
  by (simp add: shlex_split_def whitespace_def quotes_def escape_def escapedquotes_def)

lemma shlex_split_foo_bar_com: "shlex_split ''foo.bar.com'' = Inr [''foo.bar.com'']"
  by (simp add: shlex_split_def whitespace_def quotes_def escape_def escapedquotes_def)

theorem harmonize_cases_witness:
  "harmonize ''example.com.''
     \<lparr>rec_content = ''foo'', rec_type = ''CNAME'', rec_name = ''www'', rec_ttl = 300,
      rec_id = ''1''\<rparr> =
   Inr \<lparr>rec_content = ''foo.example.com.'', rec_type = ''CNAME'', rec_name = ''www'',
      rec_ttl = 300, rec_id = ''1''\<rparr> \<and>
   harmonize ''example.com.''
     \<lparr>rec_content = ''foo.bar.com'', rec_type = ''CNAME'', rec_name = ''www'', rec_ttl = 300,
      rec_id = ''1''\<rparr> =
   Inr \<lparr>rec_content = ''foo.bar.com.'', rec_type = ''CNAME'', rec_name = ''www'',
      rec_ttl = 300, rec_id = ''1''\<rparr> \<and>
   harmonize ''example.com.''
     \<lparr>rec_content = ''foo.bar.com.'', rec_type = ''CNAME'', rec_name = ''www'', rec_ttl = 300,
      rec_id = ''1''\<rparr> =
   Inr \<lparr>rec_content = ''foo.bar.com.'', rec_type = ''CNAME'', rec_name = ''www'',
      rec_ttl = 300, rec_id = ''1''\<rparr>"
proof -
  let ?a = "\<lparr>rec_content = ''foo'', rec_type = ''CNAME'', rec_name = ''www'', rec_ttl = 300,
      rec_id = ''1''\<rparr>"
  let ?b = "\<lparr>rec_content = ''foo.bar.com'', rec_type = ''CNAME'', rec_name = ''www'',
      rec_ttl = 300, rec_id = ''1''\<rparr>"
  let ?c = "\<lparr>rec_content = ''foo.bar.com.'', rec_type = ''CNAME'', rec_name = ''www'',
      rec_ttl = 300, rec_id = ''1''\<rparr>"
  have a: "rec_type ?a \<in> {''CNAME'', ''MX'', ''NS''}" "rec_content ?a \<noteq> []" by simp_all
  have b: "rec_type ?b \<in> {''CNAME'', ''MX'', ''NS''}" "rec_content ?b \<noteq> []" by simp_all
  have c: "rec_type ?c \<in> {''CNAME'', ''MX'', ''NS''}" "rec_content ?c \<noteq> []" by simp_all
  show ?thesis
    using harmonize_cases[OF a, where ts = "[''foo'']" and zone_name = "''example.com.''"]
      harmonize_cases[OF b, where ts = "[''foo.bar.com'']" and zone_name = "''example.com.''"]
      harmonize_cases[OF c, where ts = "[]" and zone_name = "''example.com.''"]
      shlex_split_foo shlex_split_foo_bar_com
    by simp
qed


subsection \<open>Applying a change\<close>

lemma provider_call_run: "provider_call prov t c e tr = run prov t [(c, e)] tr"
  by (simp add: provider_call_def)

lemma and_then_run:
  "and_then (run prov t ss tr) (run prov t ss') = run prov t (ss @ ss') tr"
  by (induction ss arbitrary: tr) (auto simp: and_then_def)

lemma create_then_delete_run:
  "create_then_delete prov t n o' tr = run prov t [create_step n, delete_step None o'] tr"
  by (simp add: create_then_delete_def provider_call_def and_then_def create_step_def
      delete_step_def)

lemma update_or_replace_run:
  "update_or_replace prov t m ex n o' tr = run prov t (pair_steps m ex (n, o')) tr"
  by (simp add: update_or_replace_def pair_steps_def create_then_delete_run provider_call_run
      update_step_def split: option.splits)

lemma pair_loop_run:
  "pair_loop prov t m ex ps tr = run prov t (concat (map (pair_steps m ex) ps)) tr"
proof (induction ps arbitrary: tr)
  case Nil
  show ?case by simp
next
  case (Cons p ps)
  obtain n o' where p: "p = (n, o')" by (cases p)
  have "(pair_loop prov t m ex ps) = (run prov t (concat (map (pair_steps m ex) ps)))"
    using Cons.IH by blast
  then show ?case
    by (simp add: p update_or_replace_run and_then_run)
qed

lemma create_loop_run: "create_loop prov t rs tr = run prov t (map create_step rs) tr"
proof (induction rs arbitrary: tr)
  case Nil
  show ?case by simp
next
  case (Cons r rs)
  have "create_loop prov t rs = run prov t (map create_step rs)"
    using Cons.IH by blast
  moreover have "create_step r =
      (Create_record (content r) (rtype r) (name r), RecordCreateError r None)"
    by (simp add: create_step_def)
  ultimately show ?case
    by (simp add: provider_call_def and_then_def)
qed

lemma delete_loop_run:
  "delete_loop prov t m ex rs tr =
     run prov t (map (\<lambda>r. delete_step (get m ex (content r)) r) rs) tr"
proof (induction rs arbitrary: tr)
  case Nil
  show ?case by simp
next
  case (Cons r rs)
  have "delete_loop prov t m ex rs =
        run prov t (map (\<lambda>r. delete_step (get m ex (content r)) r) rs)"
    using Cons.IH by blast
  moreover have "delete_step (get m ex (content r)) r =
      (Delete_record (get m ex (content r)) (content r) (rtype r) (name r),
       RecordDeleteError r None)"
    by (simp add: delete_step_def)
  ultimately show ?case
    by (simp add: provider_call_def and_then_def)
qed

lemma zip_take_min:
  "zip (take (min (length xs) (length ys)) xs) (take (min (length xs) (length ys)) ys) = zip xs ys"
  by (metis take_zip length_zip take_all order_refl)

lemma reconcile_run:
  "reconcile prov t m ex old_vars new_vars tr = run prov t (planned m ex old_vars new_vars) tr"
proof -
  define adds where "adds = sorted_list_of_set (new_vars - old_vars)"
  define dels where "dels = sorted_list_of_set (old_vars - new_vars)"
  define n where "n = min (length adds) (length dels)"
  have n: "min (card (new_vars - old_vars)) (card (old_vars - new_vars)) = n"
    by (simp add: n_def adds_def dels_def)
  have c: "create_loop prov t (drop n adds) = run prov t (map create_step (drop n adds))"
    by (rule ext) (rule create_loop_run)
  have d: "delete_loop prov t m ex (drop n dels) =
           run prov t (map (\<lambda>r. delete_step (get m ex (content r)) r) (drop n dels))"
    by (rule ext) (rule delete_loop_run)
  have "reconcile prov t m ex old_vars new_vars tr =
        and_then
          (and_then (pair_loop prov t m ex (zip (take n adds) (take n dels)) tr)
             (create_loop prov t (drop n adds)))
          (delete_loop prov t m ex (drop n dels))"
    unfolding reconcile_def Let_def n adds_def[symmetric] dels_def[symmetric] ..
  also have "\<dots> = run prov t
      ((concat (map (pair_steps m ex) (zip adds dels)) @ map create_step (drop n adds))
        @ map (\<lambda>r. delete_step (get m ex (content r)) r) (drop n dels)) tr"
    unfolding c d pair_loop_run and_then_run
    by (simp only: n_def zip_take_min)
  also have "\<dots> = run prov t (planned m ex old_vars new_vars) tr"
    unfolding planned_def Let_def adds_def[symmetric] dels_def[symmetric] n_def[symmetric]
    by (simp only: append_assoc)
  finally show ?thesis .
qed

lemma run_trace:
  "run prov t ss tr = (tr', out) \<Longrightarrow>
   \<exists>cs. tr' = tr @ cs \<and> prefix cs (map fst ss) \<and>
     (\<forall>j<length cs. \<not> prov t (tr @ take j cs) (cs ! j) \<longrightarrow>
        Suc j = length cs \<and> (\<exists>e. out = Some e \<and> (cs ! j, e) \<in> set ss))"
proof (induction ss arbitrary: tr)
  case Nil
  then show ?case by simp
next
  case (Cons s ss)
  obtain c e where s: "s = (c, e)" by (cases s)
  show ?case
  proof (cases "prov t tr c")
    case True
    with Cons.prems s have "run prov t ss (tr @ [c]) = (tr', out)" by simp
    from Cons.IH[OF this] obtain cs where cs: "tr' = (tr @ [c]) @ cs" "prefix cs (map fst ss)"
      "\<forall>j<length cs. \<not> prov t ((tr @ [c]) @ take j cs) (cs ! j) \<longrightarrow>
        Suc j = length cs \<and> (\<exists>e. out = Some e \<and> (cs ! j, e) \<in> set ss)" by blast
    have "\<forall>j<length (c # cs). \<not> prov t (tr @ take j (c # cs)) ((c # cs) ! j) \<longrightarrow>
        Suc j = length (c # cs) \<and> (\<exists>e. out = Some e \<and> ((c # cs) ! j, e) \<in> set (s # ss))"
    proof (intro allI impI)
      fix j assume j: "j < length (c # cs)" and f: "\<not> prov t (tr @ take j (c # cs)) ((c # cs) ! j)"
      show "Suc j = length (c # cs) \<and> (\<exists>e. out = Some e \<and> ((c # cs) ! j, e) \<in> set (s # ss))"
      proof (cases j)
        case 0
        with f True show ?thesis by simp
      next
        case (Suc k)
        from j Suc have k: "k < length cs" by simp
        from f Suc have "\<not> prov t ((tr @ [c]) @ take k cs) (cs ! k)" by simp
        with cs(3) k have "Suc k = length cs \<and> (\<exists>e. out = Some e \<and> (cs ! k, e) \<in> set ss)"
          by blast
        moreover have "(c # cs) ! j = cs ! k" using Suc by simp
        moreover have "Suc j = length (c # cs) \<longleftrightarrow> Suc k = length cs" using Suc by simp
        ultimately show ?thesis by (simp only: list.set) blast
      qed
    qed
    with cs(1,2) s show ?thesis by (intro exI[of _ "c # cs"]) simp
  next
    case False
    with Cons.prems s have "tr' = tr @ [c]" "out = Some e" by auto
    with False s show ?thesis by (intro exI[of _ "[c]"]) auto
  qed
qed

lemma planned_raised_for: "(c, e) \<in> set (planned m ex old_vars new_vars) \<Longrightarrow> raised_for c e"
  by (auto simp: planned_def Let_def pair_steps_def create_step_def update_step_def
      delete_step_def split: option.splits if_splits prod.splits)

lemma planned_same: "planned m ex vars vars = []"
  unfolding planned_def Let_def by simp

lemma sorted_single: "sorted_list_of_set {x :: LexiconRecord} = [x]"
  by simp

lemma planned_single:
  assumes "old_record \<noteq> new_record"
  shows "planned m ex {old_record} {new_record} = pair_steps m ex (new_record, old_record)"
proof -
  have a: "{new_record} - {old_record} = {new_record}" using assms by auto
  have d: "{old_record} - {new_record} = {old_record}" using assms by auto
  show ?thesis
    unfolding planned_def Let_def a d sorted_single by simp
qed


lemma apply_change_run:
  assumes "change_record ch = Some r"
    and "rrset_or_empty (o_type r) (ch_existing ch) = Inr old_vars"
    and "rrset_or_empty (o_type r) (ch_new ch) = Inr new_vars"
  shows "apply_change prov m ch tr =
         run prov (o_ttl r) (planned m (ch_existing ch) old_vars new_vars) tr"
proof -
  have "apply_change prov m ch tr =
        reconcile prov (o_ttl r) m (ch_existing ch) old_vars new_vars tr"
    by (simp only: apply_change_def assms option.case sum.case)
  then show ?thesis by (simp only: reconcile_run)
qed


lemma run_calls: "\<exists>cs. fst (run prov t ss tr) = tr @ cs \<and> prefix cs (map fst ss)"
proof (induction ss arbitrary: tr)
  case Nil
  show ?case by simp
next
  case (Cons s ss)
  obtain c e where s: "s = (c, e)" by (cases s)
  show ?case
  proof (cases "prov t tr c")
    case True
    from Cons.IH[of "tr @ [c]"] obtain cs where
      cs: "fst (run prov t ss (tr @ [c])) = (tr @ [c]) @ cs" "prefix cs (map fst ss)"
      by (elim exE conjE)
    have "fst (run prov t (s # ss) tr) = tr @ (c # cs)" using True cs(1) by (simp add: s)
    moreover have "prefix (c # cs) (map fst (s # ss))" using cs(2) by (simp add: s)
    ultimately show ?thesis by (rule_tac x = "c # cs" in exI) (rule conjI)
  next
    case False
    have "fst (run prov t (s # ss) tr) = tr @ [c]" using False by (simp add: s)
    moreover have "prefix [c] (map fst (s # ss))" by (simp add: s)
    ultimately show ?thesis by (rule_tac x = "[c]" in exI) (rule conjI)
  qed
qed

lemma run_prefix_calls:
  assumes "fst (run prov t ss tr) = tr @ cs"
  shows "set cs \<subseteq> fst ` set ss"
proof -
  from run_calls[of prov t ss tr] obtain cs' where
    cs': "fst (run prov t ss tr) = tr @ cs'" "prefix cs' (map fst ss)"
    by (elim exE conjE)
  have "cs' = cs" using assms cs'(1) by simp
  then have "prefix cs (map fst ss)" using cs'(2) by simp
  then have "set cs \<subseteq> set (map fst ss)" by (rule set_mono_prefix)
  then show ?thesis by simp
qed

text \<open>
  Claim C4, as the code has it. When the old and the new record each encode to one flat
  record, the two differ, the memory holds a non-empty identifier for the old content
  under the old record's key and \<^verbatim>\<open>has_unique_ids\<close> holds for that key, the only
  provider call is one \<^verbatim>\<open>update_record\<close> with that identifier and the new flat
  record; a falsy answer raises \<open>RecordUpdateError\<close>.
\<close>

theorem update_preferred:
  assumes "change_record ch = Some r"
    and "rrset_or_empty (o_type r) (ch_existing ch) = Inr {old_record}"
    and "rrset_or_empty (o_type r) (ch_new ch) = Inr {new_record}"
    and "old_record \<noteq> new_record"
    and "get m (ch_existing ch) (content old_record) = Some identifier"
    and "identifier \<noteq> []"
    and "has_unique_ids m (ch_existing ch)"
  shows "apply_change prov m ch tr =
     (tr @ [Update_record identifier (content new_record) (rtype new_record) (name new_record)],
      if prov (o_ttl r) tr
           (Update_record identifier (content new_record) (rtype new_record) (name new_record))
      then None else Some (RecordUpdateError new_record (Some identifier)))"
  using assms
  by (simp add: apply_change_run planned_single pair_steps_def update_step_def)

theorem update_preferred_witness:
  "apply_change always_ok (remember RememberedIds_init (Some www_old) ''192.0.2.1'' ''17'')
     \<lparr>ch_existing = Some www_old, ch_new = Some www_new\<rparr> [] =
   ([Update_record ''17'' ''192.0.2.2'' ''A'' ''www.example.com.''], None)"
proof -
  let ?m = "remember RememberedIds_init (Some www_old) ''192.0.2.1'' ''17''"
  let ?ch = "\<lparr>ch_existing = Some www_old, ch_new = Some www_new\<rparr>"
  have 1: "change_record ?ch = Some www_new" by code_simp
  have 2: "rrset_or_empty (o_type www_new) (ch_existing ?ch) = Inr {flat_1}" by code_simp
  have 3: "rrset_or_empty (o_type www_new) (ch_new ?ch) = Inr {flat_2}" by code_simp
  have 4: "flat_1 \<noteq> flat_2" by code_simp
  have 5: "get ?m (ch_existing ?ch) (content flat_1) = Some ''17''" by code_simp
  have 6: "''17'' \<noteq> []" by simp
  have 7: "has_unique_ids ?m (ch_existing ?ch)" by code_simp
  show ?thesis
    using update_preferred[OF 1 2 3 4 5 6 7, of always_ok "[]"]
    by (simp add: always_ok_def flat_2_def www_new_def)
qed

text \<open>
  Claim C4 as stated fails for an identifier that is the empty string: the memory holds
  it, \<^verbatim>\<open>has_unique_ids\<close> is true, and the code creates and deletes instead of
  updating, because \<^verbatim>\<open>if identifier and ...\<close> takes the empty string for false.
\<close>

theorem update_preferred_counterexample:
  "get (remember RememberedIds_init (Some www_old) ''192.0.2.1'' []) (Some www_old) ''192.0.2.1''
     = Some [] \<and>
   has_unique_ids (remember RememberedIds_init (Some www_old) ''192.0.2.1'' []) (Some www_old) \<and>
   apply_change always_ok (remember RememberedIds_init (Some www_old) ''192.0.2.1'' [])
     \<lparr>ch_existing = Some www_old, ch_new = Some www_new\<rparr> [] =
   ([Create_record ''192.0.2.2'' ''A'' ''www.example.com.'',
     Delete_record None ''192.0.2.1'' ''A'' ''www.example.com.''], None)"
  by code_simp

text \<open>
  An identifier that is the empty string counts as absent for every such change: the
  calls are those of the fallback.
\<close>

lemma empty_identifier_falls_back:
  assumes "change_record ch = Some r"
    and "rrset_or_empty (o_type r) (ch_existing ch) = Inr {old_record}"
    and "rrset_or_empty (o_type r) (ch_new ch) = Inr {new_record}"
    and "old_record \<noteq> new_record"
    and "get m (ch_existing ch) (content old_record) = Some []"
  shows "apply_change prov m ch tr =
     run prov (o_ttl r)
       [(Create_record (content new_record) (rtype new_record) (name new_record),
         RecordCreateError new_record None),
        (Delete_record None (content old_record) (rtype old_record) (name old_record),
         RecordDeleteError old_record None)] tr"
  using assms
  by (simp add: apply_change_run planned_single pair_steps_def create_step_def delete_step_def)

text \<open>
  Claim C5. When the old and the new record each encode to one flat record, the two
  differ, and the memory holds no identifier for the old content or
  \<^verbatim>\<open>has_unique_ids\<close> is false, the first provider call is \<^verbatim>\<open>create_record\<close> for
  the new flat record and the second, made once the create has answered truthy, is
  \<^verbatim>\<open>delete_record\<close> for the old one; there is no update. A falsy create raises
  \<open>RecordCreateError\<close> and the delete is not made.
\<close>

theorem replace_fallback:
  assumes "change_record ch = Some r"
    and "rrset_or_empty (o_type r) (ch_existing ch) = Inr {old_record}"
    and "rrset_or_empty (o_type r) (ch_new ch) = Inr {new_record}"
    and "old_record \<noteq> new_record"
    and "get m (ch_existing ch) (content old_record) = None \<or> \<not> has_unique_ids m (ch_existing ch)"
  shows "apply_change prov m ch tr =
     (if prov (o_ttl r) tr
           (Create_record (content new_record) (rtype new_record) (name new_record))
      then
        (tr @ [Create_record (content new_record) (rtype new_record) (name new_record),
               Delete_record None (content old_record) (rtype old_record) (name old_record)],
         if prov (o_ttl r)
              (tr @ [Create_record (content new_record) (rtype new_record) (name new_record)])
              (Delete_record None (content old_record) (rtype old_record) (name old_record))
         then None else Some (RecordDeleteError old_record None))
      else
        (tr @ [Create_record (content new_record) (rtype new_record) (name new_record)],
         Some (RecordCreateError new_record None)))"
  using assms
  by (auto simp: apply_change_run planned_single pair_steps_def create_step_def delete_step_def
      split: option.splits)

theorem replace_fallback_witness:
  "apply_change always_ok RememberedIds_init
     \<lparr>ch_existing = Some www_old, ch_new = Some www_new\<rparr> [] =
   ([Create_record ''192.0.2.2'' ''A'' ''www.example.com.'',
     Delete_record None ''192.0.2.1'' ''A'' ''www.example.com.''], None)"
proof -
  let ?ch = "\<lparr>ch_existing = Some www_old, ch_new = Some www_new\<rparr>"
  have 1: "change_record ?ch = Some www_new" by code_simp
  have 2: "rrset_or_empty (o_type www_new) (ch_existing ?ch) = Inr {flat_1}" by code_simp
  have 3: "rrset_or_empty (o_type www_new) (ch_new ?ch) = Inr {flat_2}" by code_simp
  have 4: "flat_1 \<noteq> flat_2" by code_simp
  have 5: "get RememberedIds_init (ch_existing ?ch) (content flat_1) = None \<or>
           \<not> has_unique_ids RememberedIds_init (ch_existing ?ch)" by code_simp
  show ?thesis
    using replace_fallback[OF 1 2 3 4 5, of always_ok "[]"]
    by (simp add: always_ok_def flat_1_def flat_2_def www_new_def)
qed

text \<open>
  Claim C8. A change whose old and new record encode to the same set of flat records
  makes no provider call and raises nothing; a change whose old and new record are the
  same record makes no provider call.
\<close>

theorem reconcile_idempotent:
  assumes "change_record ch = Some r"
  shows "(rrset_or_empty (o_type r) (ch_existing ch) = Inr vars \<and>
          rrset_or_empty (o_type r) (ch_new ch) = Inr vars \<longrightarrow>
            apply_change prov m ch tr = (tr, None)) \<and>
         (ch_existing ch = ch_new ch \<longrightarrow> fst (apply_change prov m ch tr) = tr)"
proof (intro conjI impI)
  assume "rrset_or_empty (o_type r) (ch_existing ch) = Inr vars \<and>
          rrset_or_empty (o_type r) (ch_new ch) = Inr vars"
  then show "apply_change prov m ch tr = (tr, None)"
    using assms by (simp add: apply_change_run planned_same)
next
  assume same: "ch_existing ch = ch_new ch"
  show "fst (apply_change prov m ch tr) = tr"
  proof (cases "rrset_or_empty (o_type r) (ch_new ch)")
    case (Inl e)
    then show ?thesis using assms same by (simp add: apply_change_def)
  next
    case (Inr vars)
    then show ?thesis using assms same by (simp add: apply_change_run planned_same)
  qed
qed

theorem reconcile_idempotent_witness:
  "apply_change always_ok (remember RememberedIds_init (Some www_old) ''192.0.2.1'' ''17'')
     \<lparr>ch_existing = Some www_old, ch_new = Some www_old\<rparr> [] = ([], None)"
proof -
  let ?m = "remember RememberedIds_init (Some www_old) ''192.0.2.1'' ''17''"
  let ?ch = "\<lparr>ch_existing = Some www_old, ch_new = Some www_old\<rparr>"
  have 1: "change_record ?ch = Some www_old" by code_simp
  have 2: "rrset_or_empty (o_type www_old) (ch_existing ?ch) = Inr {flat_1}" by code_simp
  have 3: "rrset_or_empty (o_type www_old) (ch_new ?ch) = Inr {flat_1}" by code_simp
  show ?thesis
    using reconcile_idempotent[OF 1, of "{flat_1}" always_ok ?m "[]"] 2 3 by blast
qed

text \<open>
  Claim C7. In applying a change, the calls made are an initial part of the operation
  list, and a call that answers falsy is the last call made: the exception of its kind is
  raised, carrying the call's flat record and, for an update, its identifier. The calls
  made before it stay made; no call follows. The exception ends \<^verbatim>\<open>_apply\<close> as a
  whole: the changes that come after are not applied.
\<close>

theorem failed_call_raises:
  assumes "change_record ch = Some r"
    and "rrset_or_empty (o_type r) (ch_existing ch) = Inr old_vars"
    and "rrset_or_empty (o_type r) (ch_new ch) = Inr new_vars"
    and "apply_change prov m ch tr = (tr', out)"
  shows "(\<exists>cs. tr' = tr @ cs \<and>
           prefix cs (map fst (planned m (ch_existing ch) old_vars new_vars)) \<and>
           (\<forall>j<length cs. \<not> prov (o_ttl r) (tr @ take j cs) (cs ! j) \<longrightarrow>
              Suc j = length cs \<and> (\<exists>e. out = Some e \<and> raised_for (cs ! j) e))) \<and>
         (\<forall>e. out = Some e \<longrightarrow> apply_changes prov m (ch # chs) tr = (tr', Some e))"
proof (rule conjI)
  have "run prov (o_ttl r) (planned m (ch_existing ch) old_vars new_vars) tr = (tr', out)"
    using assms by (simp add: apply_change_run)
  from run_trace[OF this] obtain cs where
    cs: "tr' = tr @ cs" "prefix cs (map fst (planned m (ch_existing ch) old_vars new_vars))"
      "\<forall>j<length cs. \<not> prov (o_ttl r) (tr @ take j cs) (cs ! j) \<longrightarrow>
         Suc j = length cs \<and>
         (\<exists>e. out = Some e \<and> (cs ! j, e) \<in> set (planned m (ch_existing ch) old_vars new_vars))"
    by (elim exE conjE)
  have "\<forall>j<length cs. \<not> prov (o_ttl r) (tr @ take j cs) (cs ! j) \<longrightarrow>
         Suc j = length cs \<and> (\<exists>e. out = Some e \<and> raised_for (cs ! j) e)"
  proof (intro allI impI)
    fix j assume "j < length cs" "\<not> prov (o_ttl r) (tr @ take j cs) (cs ! j)"
    with cs(3) obtain e where "Suc j = length cs" "out = Some e"
      "(cs ! j, e) \<in> set (planned m (ch_existing ch) old_vars new_vars)" by auto
    then show "Suc j = length cs \<and> (\<exists>e. out = Some e \<and> raised_for (cs ! j) e)"
      using planned_raised_for by auto
  qed
  with cs(1,2) show "\<exists>cs. tr' = tr @ cs \<and>
           prefix cs (map fst (planned m (ch_existing ch) old_vars new_vars)) \<and>
           (\<forall>j<length cs. \<not> prov (o_ttl r) (tr @ take j cs) (cs ! j) \<longrightarrow>
              Suc j = length cs \<and> (\<exists>e. out = Some e \<and> raised_for (cs ! j) e))"
    by (rule_tac x = cs in exI) simp
next
  show "\<forall>e. out = Some e \<longrightarrow> apply_changes prov m (ch # chs) tr = (tr', Some e)"
    using assms(4) by (simp add: and_then_def)
qed

theorem failed_call_raises_witness:
  "apply_change delete_fails RememberedIds_init
     \<lparr>ch_existing = Some www_old, ch_new = Some www_new\<rparr> [] =
   ([Create_record ''192.0.2.2'' ''A'' ''www.example.com.'',
     Delete_record None ''192.0.2.1'' ''A'' ''www.example.com.''],
    Some (RecordDeleteError flat_1 None)) \<and>
   raised_for (Delete_record None ''192.0.2.1'' ''A'' ''www.example.com.'')
     (RecordDeleteError flat_1 None)"
proof -
  let ?ch = "\<lparr>ch_existing = Some www_old, ch_new = Some www_new\<rparr>"
  let ?C = "Create_record ''192.0.2.2'' ''A'' ''www.example.com.''"
  let ?D = "Delete_record None ''192.0.2.1'' ''A'' ''www.example.com.''"
  have 1: "change_record ?ch = Some www_new" by code_simp
  have 2: "rrset_or_empty (o_type www_new) (ch_existing ?ch) = Inr {flat_1}" by code_simp
  have 3: "rrset_or_empty (o_type www_new) (ch_new ?ch) = Inr {flat_2}" by code_simp
  have 4: "apply_change delete_fails RememberedIds_init ?ch [] =
           ([?C, ?D], Some (RecordDeleteError flat_1 None))" by code_simp
  from failed_call_raises[OF 1 2 3 4, of "[]"] have
    "\<exists>cs. [?C, ?D] = [] @ cs \<and>
       prefix cs (map fst (planned RememberedIds_init (ch_existing ?ch) {flat_1} {flat_2})) \<and>
       (\<forall>j<length cs. \<not> delete_fails (o_ttl www_new) ([] @ take j cs) (cs ! j) \<longrightarrow>
          Suc j = length cs \<and>
          (\<exists>e. Some (RecordDeleteError flat_1 None) = Some e \<and> raised_for (cs ! j) e))"
    by (rule conjunct1)
  then obtain cs where
    cs: "[?C, ?D] = [] @ cs"
      "\<forall>j<length cs. \<not> delete_fails (o_ttl www_new) ([] @ take j cs) (cs ! j) \<longrightarrow>
         Suc j = length cs \<and>
         (\<exists>e. Some (RecordDeleteError flat_1 None) = Some e \<and> raised_for (cs ! j) e)"
    by (elim exE conjE)
  have "cs = [?C, ?D]" using cs(1) by simp
  moreover have "\<not> delete_fails (o_ttl www_new) [?C] ?D" by (simp add: delete_fails_def)
  ultimately have "raised_for ?D (RecordDeleteError flat_1 None)"
    using cs(2) by (auto dest!: spec[of _ 1])
  with 4 show ?thesis by simp
qed

lemma run_all_ok:
  "(\<And>tr' c. prov t tr' c) \<Longrightarrow> run prov t ss tr = (tr @ map fst ss, None)"
proof (induction ss arbitrary: tr)
  case Nil
  show ?case by simp
next
  case (Cons s ss)
  obtain c e where s: "s = (c, e)" by (cases s)
  have "run prov t ss (tr @ [c]) = ((tr @ [c]) @ map fst ss, None)"
    using Cons.IH Cons.prems by blast
  then show ?case using Cons.prems by (simp add: s)
qed

lemma pair_steps_calls:
  "map fst (pair_steps m ex (nw, od)) =
     (case get m ex (content od) of
        Some i \<Rightarrow>
          if i \<noteq> [] \<and> has_unique_ids m ex then
            [Update_record i (content nw) (rtype nw) (name nw)]
          else [Create_record (content nw) (rtype nw) (name nw),
                Delete_record None (content od) (rtype od) (name od)]
      | None \<Rightarrow>
          [Create_record (content nw) (rtype nw) (name nw),
           Delete_record None (content od) (rtype od) (name od)])"
  by (simp add: pair_steps_def create_step_def update_step_def delete_step_def
      split: option.splits)

lemma planned_calls:
  assumes "adds = sorted_list_of_set (new_vars - old_vars)"
    and "dels = sorted_list_of_set (old_vars - new_vars)"
    and "n = min (length adds) (length dels)"
  shows "map fst (planned m ex old_vars new_vars) =
     concat (map (\<lambda>(nw, od).
        case get m ex (content od) of
          Some i \<Rightarrow>
            if i \<noteq> [] \<and> has_unique_ids m ex then
              [Update_record i (content nw) (rtype nw) (name nw)]
            else [Create_record (content nw) (rtype nw) (name nw),
                  Delete_record None (content od) (rtype od) (name od)]
        | None \<Rightarrow>
            [Create_record (content nw) (rtype nw) (name nw),
             Delete_record None (content od) (rtype od) (name od)]) (zip adds dels))
     @ map (\<lambda>nw. Create_record (content nw) (rtype nw) (name nw)) (drop n adds)
     @ map (\<lambda>od. Delete_record (get m ex (content od)) (content od) (rtype od) (name od))
         (drop n dels)"
proof -
  have p: "map fst (concat (map (pair_steps m ex) (zip adds dels))) =
     concat (map (\<lambda>(nw, od).
        case get m ex (content od) of
          Some i \<Rightarrow>
            if i \<noteq> [] \<and> has_unique_ids m ex then
              [Update_record i (content nw) (rtype nw) (name nw)]
            else [Create_record (content nw) (rtype nw) (name nw),
                  Delete_record None (content od) (rtype od) (name od)]
        | None \<Rightarrow>
            [Create_record (content nw) (rtype nw) (name nw),
             Delete_record None (content od) (rtype od) (name od)]) (zip adds dels))"
    by (induction "zip adds dels" arbitrary: adds dels)
      (auto simp: map_concat pair_steps_calls intro!: arg_cong[where f = concat])
  have c: "map fst (map create_step (drop n adds)) =
           map (\<lambda>nw. Create_record (content nw) (rtype nw) (name nw)) (drop n adds)"
    by (simp add: create_step_def)
  have d: "map fst (map (\<lambda>r. delete_step (get m ex (content r)) r) (drop n dels)) =
           map (\<lambda>od. Delete_record (get m ex (content od)) (content od) (rtype od) (name od))
             (drop n dels)"
    by (simp add: delete_step_def)
  show ?thesis
    unfolding planned_def Let_def assms(1)[symmetric] assms(2)[symmetric] assms(3)[symmetric]
    by (simp only: map_append p c d)
qed


lemma zip_right_take:
  "(a, b) \<in> set (zip xs ys) \<Longrightarrow> b \<in> set (take (min (length xs) (length ys)) ys)"
proof -
  assume "(a, b) \<in> set (zip xs ys)"
  then have "(a, b) \<in> set (zip (take (min (length xs) (length ys)) xs)
                              (take (min (length xs) (length ys)) ys))"
    by (simp only: zip_take_min)
  then show ?thesis by (rule set_zip_rightD)
qed

lemma planned_delete_cases:
  assumes "adds = sorted_list_of_set (new_vars - old_vars)"
    and "dels = sorted_list_of_set (old_vars - new_vars)"
    and "n = min (length adds) (length dels)"
    and "(Delete_record i c ty nm, e) \<in> set (planned m ex old_vars new_vars)"
  shows "(i = None \<and> (\<exists>od\<in>set (take n dels). c = content od \<and> ty = rtype od \<and> nm = name od)) \<or>
         (\<exists>od\<in>set (drop n dels).
            i = get m ex (content od) \<and> c = content od \<and> ty = rtype od \<and> nm = name od)"
proof -
  from assms(4) consider
      (pair) p where "p \<in> set (zip adds dels)" "(Delete_record i c ty nm, e) \<in> set (pair_steps m ex p)"
    | (create) nw where "nw \<in> set (drop n adds)" "(Delete_record i c ty nm, e) = create_step nw"
    | (delete) od where "od \<in> set (drop n dels)"
        "(Delete_record i c ty nm, e) = delete_step (get m ex (content od)) od"
    unfolding planned_def Let_def assms(1)[symmetric] assms(2)[symmetric] assms(3)[symmetric]
    by auto
  then show ?thesis
  proof cases
    case pair
    obtain nw od where p: "p = (nw, od)" by (cases p)
    have "od \<in> set (take n dels)" using pair(1) unfolding p assms(3) by (rule zip_right_take)
    moreover have "i = None \<and> c = content od \<and> ty = rtype od \<and> nm = name od"
      using pair(2) unfolding p
      by (auto simp: pair_steps_def create_step_def update_step_def delete_step_def
          split: option.splits if_splits)
    ultimately show ?thesis by blast
  next
    case create
    then show ?thesis by (simp add: create_step_def)
  next
    case delete
    then show ?thesis by (auto simp: delete_step_def)
  qed
qed

text \<open>
  Claim C9. In applying a change, the sorted additions and deletions are paired position
  by position. When every provider call answers truthy, the calls made are exactly: for
  each pair, one update, or else a create followed by a delete that passes no identifier,
  whatever the memory holds for the old content; then a create for each unpaired
  addition; then, for each unpaired deletion, a delete that passes what \<^verbatim>\<open>get\<close>
  returns for the old record's key and the deleted content. For any provider, every
  delete call made is of one of these two kinds.
\<close>

theorem delete_identifier_paths:
  assumes "change_record ch = Some r"
    and "rrset_or_empty (o_type r) (ch_existing ch) = Inr old_vars"
    and "rrset_or_empty (o_type r) (ch_new ch) = Inr new_vars"
    and "adds = sorted_list_of_set (new_vars - old_vars)"
    and "dels = sorted_list_of_set (old_vars - new_vars)"
    and "n = min (length adds) (length dels)"
  shows
    "((\<forall>tr' c. prov (o_ttl r) tr' c) \<longrightarrow>
        apply_change prov m ch tr =
          (tr @ concat (map (\<lambda>(nw, od).
                   case get m (ch_existing ch) (content od) of
                     Some i \<Rightarrow>
                       if i \<noteq> [] \<and> has_unique_ids m (ch_existing ch) then
                         [Update_record i (content nw) (rtype nw) (name nw)]
                       else [Create_record (content nw) (rtype nw) (name nw),
                             Delete_record None (content od) (rtype od) (name od)]
                   | None \<Rightarrow>
                       [Create_record (content nw) (rtype nw) (name nw),
                        Delete_record None (content od) (rtype od) (name od)]) (zip adds dels))
              @ map (\<lambda>nw. Create_record (content nw) (rtype nw) (name nw)) (drop n adds)
              @ map (\<lambda>od. Delete_record (get m (ch_existing ch) (content od))
                            (content od) (rtype od) (name od)) (drop n dels),
           None)) \<and>
     (\<forall>cs out i c ty nm.
        apply_change prov m ch tr = (tr @ cs, out) \<and> Delete_record i c ty nm \<in> set cs \<longrightarrow>
          (i = None \<and>
             (\<exists>od\<in>set (take n dels). c = content od \<and> ty = rtype od \<and> nm = name od)) \<or>
          (\<exists>od\<in>set (drop n dels).
             i = get m (ch_existing ch) (content od) \<and>
             c = content od \<and> ty = rtype od \<and> nm = name od))"
proof (intro conjI impI allI)
  assume ok: "\<forall>tr' c. prov (o_ttl r) tr' c"
  have "apply_change prov m ch tr =
        (tr @ map fst (planned m (ch_existing ch) old_vars new_vars), None)"
    using ok by (simp only: apply_change_run[OF assms(1-3)] run_all_ok)
  then show "apply_change prov m ch tr =
          (tr @ concat (map (\<lambda>(nw, od).
                   case get m (ch_existing ch) (content od) of
                     Some i \<Rightarrow>
                       if i \<noteq> [] \<and> has_unique_ids m (ch_existing ch) then
                         [Update_record i (content nw) (rtype nw) (name nw)]
                       else [Create_record (content nw) (rtype nw) (name nw),
                             Delete_record None (content od) (rtype od) (name od)]
                   | None \<Rightarrow>
                       [Create_record (content nw) (rtype nw) (name nw),
                        Delete_record None (content od) (rtype od) (name od)]) (zip adds dels))
              @ map (\<lambda>nw. Create_record (content nw) (rtype nw) (name nw)) (drop n adds)
              @ map (\<lambda>od. Delete_record (get m (ch_existing ch) (content od))
                            (content od) (rtype od) (name od)) (drop n dels),
           None)"
    by (simp only: planned_calls[OF assms(4-6)])
next
  fix cs out i c ty nm
  assume a: "apply_change prov m ch tr = (tr @ cs, out) \<and> Delete_record i c ty nm \<in> set cs"
  then have "fst (run prov (o_ttl r) (planned m (ch_existing ch) old_vars new_vars) tr) = tr @ cs"
    by (simp add: apply_change_run[OF assms(1-3)])
  then have "set cs \<subseteq> fst ` set (planned m (ch_existing ch) old_vars new_vars)"
    by (rule run_prefix_calls)
  with a obtain e where
    "(Delete_record i c ty nm, e) \<in> set (planned m (ch_existing ch) old_vars new_vars)"
    by force
  from planned_delete_cases[OF assms(4-6) this]
  show "(i = None \<and>
             (\<exists>od\<in>set (take n dels). c = content od \<and> ty = rtype od \<and> nm = name od)) \<or>
          (\<exists>od\<in>set (drop n dels).
             i = get m (ch_existing ch) (content od) \<and>
             c = content od \<and> ty = rtype od \<and> nm = name od)" .
qed

theorem delete_identifier_paths_witness:
  "get (remember (remember RememberedIds_init (Some www_two) ''192.0.2.1'' ''17'')
          (Some www_two) ''192.0.2.3'' ''17'') (Some www_two) ''192.0.2.1'' = Some ''17'' \<and>
   apply_change always_ok
     (remember (remember RememberedIds_init (Some www_two) ''192.0.2.1'' ''17'')
        (Some www_two) ''192.0.2.3'' ''17'')
     \<lparr>ch_existing = Some www_two, ch_new = Some www_new\<rparr> [] =
   ([Create_record ''192.0.2.2'' ''A'' ''www.example.com.'',
     Delete_record None ''192.0.2.1'' ''A'' ''www.example.com.'',
     Delete_record (Some ''17'') ''192.0.2.3'' ''A'' ''www.example.com.''], None)"
proof -
  let ?m = "remember (remember RememberedIds_init (Some www_two) ''192.0.2.1'' ''17'')
             (Some www_two) ''192.0.2.3'' ''17''"
  let ?ch = "\<lparr>ch_existing = Some www_two, ch_new = Some www_new\<rparr>"
  have g: "get ?m (Some www_two) ''192.0.2.1'' = Some ''17''" by code_simp
  have 1: "change_record ?ch = Some www_new" by code_simp
  have 2: "rrset_or_empty (o_type www_new) (ch_existing ?ch) = Inr {flat_1, flat_3}"
    by code_simp
  have 3: "rrset_or_empty (o_type www_new) (ch_new ?ch) = Inr {flat_2}" by code_simp
  have 4: "[flat_2] = sorted_list_of_set ({flat_2} - {flat_1, flat_3})" by code_simp
  have 5: "[flat_1, flat_3] = sorted_list_of_set ({flat_1, flat_3} - {flat_2})" by code_simp
  have 6: "1 = min (length [flat_2]) (length [flat_1, flat_3])" by simp
  have ok: "\<forall>tr' c. always_ok (o_ttl www_new) tr' c" by (simp add: always_ok_def)
  have u: "\<not> has_unique_ids ?m (Some www_two)" by code_simp
  have f: "content flat_1 = ''192.0.2.1''" "rtype flat_1 = ''A''" "name flat_1 = ''www.example.com.''"
    "content flat_2 = ''192.0.2.2''" "rtype flat_2 = ''A''" "name flat_2 = ''www.example.com.''"
    "content flat_3 = ''192.0.2.3''" "rtype flat_3 = ''A''" "name flat_3 = ''www.example.com.''"
    by (simp_all add: flat_1_def flat_2_def flat_3_def)
  have g3: "get ?m (Some www_two) ''192.0.2.3'' = Some ''17''" by code_simp
  show ?thesis
    using delete_identifier_paths[OF 1 2 3 4 5 6, of always_ok ?m "[]"] ok g g3 u f
    by simp
qed

subsection \<open>Round trip through the flat content\<close>

lemma read_word:
  "list_all (\<lambda>c. c \<notin> whitespace \<and> c \<notin> quotes \<and> c \<noteq> escape) w \<Longrightarrow>
   read_tokens St_word es q tok (w @ rest) = read_tokens St_word es q (tok @ w) rest"
  by (induction w arbitrary: tok) simp_all

lemma read_plain_word:
  assumes "plain_word w"
  shows "read_tokens St_space es q tok (w @ rest) = read_tokens St_word es q w rest"
proof -
  from assms obtain c w' where w: "w = c # w'" by (cases w) (auto simp: plain_word_def)
  with assms have c: "c \<notin> whitespace" "c \<notin> quotes" "c \<noteq> escape"
    and w': "list_all (\<lambda>c. c \<notin> whitespace \<and> c \<notin> quotes \<and> c \<noteq> escape) w'"
    by (auto simp: plain_word_def)
  have "read_tokens St_space es q tok (w @ rest) = read_tokens St_word es q [c] (w' @ rest)"
    using c by (simp add: w)
  also have "\<dots> = read_tokens St_word es q ([c] @ w') rest" using w' by (rule read_word)
  finally show ?thesis by (simp add: w)
qed

lemma blank_whitespace: "CHR '' '' \<in> whitespace"
  by (simp add: whitespace_def)

lemma split_word_blank:
  assumes "plain_word w"
  shows "read_tokens St_space es q tok (w @ CHR '' '' # rest) =
         emit w (read_tokens St_space St_space False [] rest)"
proof -
  have "w \<noteq> []" using assms by (simp add: plain_word_def)
  then show ?thesis
    by (simp add: read_plain_word[OF assms] blank_whitespace)
qed

lemma split_word_end:
  assumes "plain_word w"
  shows "read_tokens St_space es q tok w = Inr [w]"
proof -
  have "w \<noteq> []" using assms by (simp add: plain_word_def)
  then show ?thesis
    using read_plain_word[OF assms, of es q tok "[]"] by simp
qed

lemma read_quoted:
  "list_all (\<lambda>c. c \<noteq> CHR 0x22 \<and> c \<noteq> escape) v \<Longrightarrow>
   read_tokens (St_quote (CHR 0x22)) es q tok (v @ CHR 0x22 # rest) =
   read_tokens St_word es True (tok @ v) rest"
  by (induction v arbitrary: tok q) simp_all

lemma split_quoted_end:
  assumes "quotable v"
  shows "read_tokens St_space es False [] (CHR 0x22 # v @ [CHR 0x22]) = Inr [v]"
proof -
  have "read_tokens St_space es False [] (CHR 0x22 # v @ [CHR 0x22]) =
        read_tokens (St_quote (CHR 0x22)) es False [] (v @ [CHR 0x22])"
    by (simp add: whitespace_def escape_def quotes_def)
  also have "\<dots> = read_tokens St_word es True ([] @ v) []"
    using assms unfolding quotable_def by (rule read_quoted)
  finally show ?thesis by simp
qed

lemma digit_char_plain:
  assumes "d < 10"
  shows "digit_char d \<notin> whitespace \<and> digit_char d \<notin> quotes \<and> digit_char d \<noteq> escape"
proof -
  from assms have "d \<in> {0, 1, 2, 3, 4, 5, 6, 7, 8, 9}" by auto
  then show ?thesis
    by (auto simp: digit_char_def whitespace_def quotes_def escape_def)
qed

lemma str_nat_plain:
  "list_all (\<lambda>c. c \<notin> whitespace \<and> c \<notin> quotes \<and> c \<noteq> escape) (str_nat n) \<and> str_nat n \<noteq> []"
proof (induction n rule: str_nat.induct)
  case (1 n)
  show ?case
  proof (cases "n < 10")
    case True
    then show ?thesis using digit_char_plain[of n] by (subst (1 2) str_nat.simps) simp
  next
    case False
    then show ?thesis
      using "1.IH" digit_char_plain[of "n mod 10"] by (subst (1 2) str_nat.simps) simp
  qed
qed

lemma plain_word_str_int: "plain_word (str_int k)"
  using str_nat_plain[of "nat k"] str_nat_plain[of "nat (- k)"]
  by (simp add: plain_word_def str_int_def whitespace_def quotes_def escape_def)

lemma shlex_split_caa:
  assumes "plain_word tag" and "quotable val"
  shows "shlex_split (str_int flags @ '' '' @ tag @ '' '' @ [CHR 0x22] @ val @ [CHR 0x22]) =
         Inr [str_int flags, tag, val]"
  unfolding shlex_split_def
  using split_word_blank[OF plain_word_str_int] split_word_blank[OF assms(1)]
    split_quoted_end[OF assms(2)]
  by simp

lemma shlex_split_mx:
  assumes "plain_word exchange"
  shows "shlex_split (str_int preference @ '' '' @ exchange) = Inr [str_int preference, exchange]"
  unfolding shlex_split_def
  using split_word_blank[OF plain_word_str_int] split_word_end[OF assms]
  by simp

lemma shlex_split_srv:
  assumes "plain_word target"
  shows "shlex_split (str_int priority @ '' '' @ str_int weight @ '' '' @ str_int port @ '' '' @ target) =
         Inr [str_int priority, str_int weight, str_int port, target]"
  unfolding shlex_split_def
  using split_word_blank[OF plain_word_str_int] split_word_end[OF assms]
  by simp

lemma escape_semicolons_none: "CHR '';'' \<notin> set v \<Longrightarrow> escape_semicolons v = v"
  unfolding escape_semicolons_def by (induction v) auto

text \<open>
  Values that do come back. A record with one value is encoded to one flat record, and
  decoding that flat record, listed back by the provider, gives the dict form of the same
  value (numbers as their decimal strings), in these cases: any value of a CNAME or ALIAS
  record; a value of an A, AAAA, NS or TXT record that contains no semicolon; a CAA value
  whose tag is one plain shell word and whose value contains no double quote and no
  backslash; an MX or SRV value whose exchange or target is one plain shell word.
\<close>

lemma roundtrip_plain_values:
  assumes "roundtrip_safe (o_type r) (o_values r)"
  shows "\<exists>f. rrset_for (o_type r) r = Inr {f} \<and>
           data_for (rtype f) [listed_as f i] =
             Inr \<lparr>data_ttl = o_ttl r, data_type = o_type r,
                  data_payload = value_data (o_values r)\<rparr>"
proof (cases "(o_type r, o_values r)" rule: roundtrip_safe.cases)
  case (1 ty v)
  then have ty: "o_type r \<in> {''A'', ''AAAA'', ''NS'', ''TXT''}" and v: "CHR '';'' \<notin> set v"
    and vs: "o_values r = Strings [v]"
    using assms by auto
  let ?f = "(v, o_ttl r, o_type r, o_fqdn r)"
  have "rrset_for (o_type r) r = Inr {?f}"
    using ty vs by (auto simp: rrset_for_def rrset_for_multiple_def)
  moreover have "data_for (rtype ?f) [listed_as ?f i] =
      Inr \<lparr>data_ttl = o_ttl r, data_type = o_type r, data_payload = value_data (o_values r)\<rparr>"
    using ty vs v
    by (auto simp: data_for_def data_for_multiple_def listed_as_def escape_semicolons_none)
  ultimately show ?thesis by blast
next
  case (2 ty v)
  then have ty: "o_type r \<in> {''CNAME'', ''ALIAS''}" and vs: "o_values r = Single v"
    using assms by auto
  let ?f = "(v, o_ttl r, o_type r, o_fqdn r)"
  have "rrset_for (o_type r) r = Inr {?f}"
    using ty vs by (auto simp: rrset_for_def rrset_for_CNAME_def)
  moreover have "data_for (rtype ?f) [listed_as ?f i] =
      Inr \<lparr>data_ttl = o_ttl r, data_type = o_type r, data_payload = value_data (o_values r)\<rparr>"
    using ty vs
    by (auto simp: data_for_def data_for_CNAME_def listed_as_def)
  ultimately show ?thesis by blast
next
  case (3 ty flags tag val)
  then have ty: "o_type r = ''CAA''" and w: "plain_word tag" "quotable val"
    and vs: "o_values r = Caa_values [(flags, tag, val)]"
    using assms by auto
  let ?c = "str_int flags @ '' '' @ tag @ '' '' @ [CHR 0x22] @ val @ [CHR 0x22]"
  let ?f = "(?c, o_ttl r, o_type r, o_fqdn r)"
  have "rrset_for (o_type r) r = Inr {?f}"
    using ty vs by (simp add: rrset_for_def rrset_for_CAA_def)
  moreover have "caa_value (listed_as ?f i) = Inr (Caa_data (str_int flags) tag val)"
    using shlex_split_caa[OF w, of flags] by (simp add: caa_value_def listed_as_def)
  then have "data_for (rtype ?f) [listed_as ?f i] =
      Inr \<lparr>data_ttl = o_ttl r, data_type = o_type r, data_payload = value_data (o_values r)\<rparr>"
    using ty vs
    by (simp add: data_for_def data_for_CAA_def data_for_values_def listed_as_def)
  ultimately show ?thesis by blast
next
  case (4 ty preference exchange)
  then have ty: "o_type r = ''MX''" and w: "plain_word exchange"
    and vs: "o_values r = Mx_values [(preference, exchange)]"
    using assms by auto
  let ?c = "str_int preference @ '' '' @ exchange"
  let ?f = "(?c, o_ttl r, o_type r, o_fqdn r)"
  have "rrset_for (o_type r) r = Inr {?f}"
    using ty vs by (simp add: rrset_for_def rrset_for_MX_def)
  moreover have "mx_value (listed_as ?f i) = Inr (Mx_data (str_int preference) exchange)"
    using shlex_split_mx[OF w, of preference] by (simp add: mx_value_def listed_as_def)
  then have "data_for (rtype ?f) [listed_as ?f i] =
      Inr \<lparr>data_ttl = o_ttl r, data_type = o_type r, data_payload = value_data (o_values r)\<rparr>"
    using ty vs
    by (simp add: data_for_def data_for_MX_def data_for_values_def listed_as_def)
  ultimately show ?thesis by blast
next
  case (5 ty priority weight port target)
  then have ty: "o_type r = ''SRV''" and w: "plain_word target"
    and vs: "o_values r = Srv_values [(priority, weight, port, target)]"
    using assms by auto
  let ?c = "str_int priority @ '' '' @ str_int weight @ '' '' @ str_int port @ '' '' @ target"
  let ?f = "(?c, o_ttl r, o_type r, o_fqdn r)"
  have "rrset_for (o_type r) r = Inr {?f}"
    using ty vs by (simp add: rrset_for_def rrset_for_SRV_def)
  moreover have "srv_value (listed_as ?f i) =
      Inr (Srv_data (str_int priority) (str_int weight) (str_int port) target)"
    using shlex_split_srv[OF w, of priority weight port] by (simp add: srv_value_def listed_as_def)
  then have "data_for (rtype ?f) [listed_as ?f i] =
      Inr \<lparr>data_ttl = o_ttl r, data_type = o_type r, data_payload = value_data (o_values r)\<rparr>"
    using ty vs
    by (simp add: data_for_def data_for_SRV_def data_for_values_def listed_as_def)
  ultimately show ?thesis by blast
qed (use assms in auto)

lemma roundtrip_plain_values_example:
  "rrset_for ''CAA'' caa_rec = Inr {caa_flat} \<and>
   data_for ''CAA'' [listed_as caa_flat ''17''] =
     Inr \<lparr>data_ttl = 3600, data_type = ''CAA'',
          data_payload = Values [Caa_data ''0'' ''issue'' ''letsencrypt.org'']\<rparr>"
proof -
  have s: "roundtrip_safe (o_type caa_rec) (o_values caa_rec)" by code_simp
  have e: "rrset_for (o_type caa_rec) caa_rec = Inr {caa_flat}" by code_simp
  have t: "o_type caa_rec = ''CAA''" "rtype caa_flat = ''CAA''" "o_ttl caa_rec = 3600"
    by code_simp+
  have v: "value_data (o_values caa_rec) = Values [Caa_data ''0'' ''issue'' ''letsencrypt.org'']"
    by code_simp
  from roundtrip_plain_values[OF s, of "''17''"] obtain f where
    f: "rrset_for (o_type caa_rec) caa_rec = Inr {f}"
      "data_for (rtype f) [listed_as f ''17''] =
         Inr \<lparr>data_ttl = o_ttl caa_rec, data_type = o_type caa_rec,
              data_payload = value_data (o_values caa_rec)\<rparr>"
    by (elim exE conjE)
  have "f = caa_flat" using f(1) e by simp
  then show ?thesis using f(2) e t v by simp
qed

lemma length_escape_semicolons:
  "length (escape_semicolons v) = length v + length (filter (\<lambda>c. c = CHR '';'') v)"
  unfolding escape_semicolons_def by (induction v) auto

lemma escape_semicolons_changes:
  assumes "CHR '';'' \<in> set v"
  shows "escape_semicolons v \<noteq> v"
proof -
  have "filter (\<lambda>c. c = CHR '';'') v \<noteq> []"
    using assms by (simp add: filter_empty_conv)
  then have "length (escape_semicolons v) \<noteq> length v"
    by (simp add: length_escape_semicolons)
  then show ?thesis by auto
qed

text \<open>
  A value of an A, AAAA, NS or TXT record that contains a semicolon, escaped or not,
  never comes back as it was: the encoder passes it on unchanged and the decoder puts a
  backslash in front of the semicolon.
\<close>

lemma semicolon_value_not_restored:
  assumes "CHR '';'' \<in> set v"
  shows "data_for_multiple ty [listed_as (v, t, ty, n) i] =
           Inr \<lparr>data_ttl = t, data_type = ty,
                data_payload = Values [Plain (escape_semicolons v)]\<rparr> \<and>
         escape_semicolons v \<noteq> v"
  using escape_semicolons_changes[OF assms]
  by (simp add: data_for_multiple_def listed_as_def)

text \<open>
  Claim C3. The claim does not hold of the code at a TXT value whose semicolon is
  escaped, the form in which octodns keeps such a value: \<^verbatim>\<open>_rrset_for_multiple\<close>
  passes the value on as it is, and \<^verbatim>\<open>_data_for_multiple\<close> puts a backslash in front
  of every semicolon, so the decoded value has two backslashes where the encoded one had
  one.
\<close>

theorem txt_escaped_semicolon_roundtrip:
  "rrset_for ''TXT'' dkim = Inr {dkim_flat} \<and>
   data_for ''TXT'' [listed_as dkim_flat ''17''] =
     Inr \<lparr>data_ttl = 300, data_type = ''TXT'',
          data_payload = Values [Plain (''v=DKIM1'' @ [CHR 0x5C, CHR 0x5C] @ ''; k=rsa'')]\<rparr> \<and>
   value_data (o_values dkim) = Values [Plain (''v=DKIM1'' @ [CHR 0x5C] @ ''; k=rsa'')] \<and>
   data_for ''TXT'' [listed_as dkim_flat ''17''] \<noteq>
     Inr \<lparr>data_ttl = o_ttl dkim, data_type = o_type dkim,
          data_payload = value_data (o_values dkim)\<rparr>"
  by code_simp


end
